theory Spec2Isabelle
  imports Main "HOL-Library.Word"
begin

section \<open>Strings\<close>

text \<open>
  A JavaScript string is a sequence of UTF-16 code units; \<open>length\<close>, \<open>substring\<close> and the
  regular expressions of the sources (none of them carries the \<open>u\<close> flag) all work on code
  units. \<open>js\<close> embeds an ASCII literal.
\<close>

type_synonym code_unit = "16 word"
type_synonym jsstring = "code_unit list"

definition js :: "string \<Rightarrow> jsstring" where
  "js s = map of_char s"

text \<open>
  The class \<open>\s\<close> of a JavaScript regular expression, which is also the set of code units
  that \<open>String.prototype.trim\<close> strips: WhiteSpace and LineTerminator of ECMAScript (TAB, LF,
  VT, FF, CR, SP, NBSP, U+1680, U+2000..U+200A, U+2028, U+2029, U+202F, U+205F, U+3000,
  U+FEFF).
\<close>

definition is_space :: "code_unit \<Rightarrow> bool" where
  "is_space c =
     (c \<in> {0x9, 0xA, 0xB, 0xC, 0xD, 0x20, 0xA0, 0x1680, 0x2028, 0x2029, 0x202F, 0x205F,
            0x3000, 0xFEFF}
      \<or> (0x2000 \<le> c \<and> c \<le> 0x200A))"

text \<open>
  \<open>String.prototype.match\<close> with a non-global regular expression tries the pattern at
  position 0, 1, ..., length and returns the first success. \<open>search m s\<close> does this for a
  matcher \<open>m\<close> that tells what the pattern yields when anchored at the start of a suffix.
\<close>

fun search :: "(jsstring \<Rightarrow> 'a option) \<Rightarrow> jsstring \<Rightarrow> 'a option" where
  "search m [] = m []"
| "search m (c # cs) = (case m (c # cs) of Some r \<Rightarrow> Some r | None \<Rightarrow> search m cs)"

section \<open>The extract endpoint: \<open>src/app/api/extract/route.ts\<close>\<close>

subsection \<open>\<open>sanitizeFilename\<close>\<close>

text \<open>The character class \<open>[<>:"/\\|?*]\<close> of the first \<open>replace\<close>.\<close>

definition disallowed :: "code_unit \<Rightarrow> bool" where
  "disallowed c = (c \<in> {0x3C, 0x3E, 0x3A, 0x22, 0x2F, 0x5C, 0x7C, 0x3F, 0x2A})"

text \<open>
  \<open>.replace(/\s+/g, '_')\<close>: every maximal run of white space becomes one underscore
  (U+005F).
\<close>

function collapse_ws :: "jsstring \<Rightarrow> jsstring" where
  "collapse_ws [] = []"
| "collapse_ws (c # cs) =
     (if is_space c then 0x5F # collapse_ws (dropWhile is_space cs) else c # collapse_ws cs)"
  by pat_completeness auto
termination
  by (relation "measure length") (auto simp: length_dropWhile_le less_Suc_eq_le)

definition sanitizeFilename :: "jsstring \<Rightarrow> jsstring" where
  "sanitizeFilename title =
     take 100 (collapse_ws (filter (\<lambda>c. \<not> disallowed c) title))"

subsection \<open>\<open>getGoogleDriveDownloadUrl\<close>\<close>

text \<open>
  \<open>/\/file\/d\/([^/]+)/\<close> anchored at the start of \<open>s\<close>: the literal \<open>/file/d/\<close>, then the
  longest run of code units other than \<open>/\<close> (U+002F), which must not be empty. The result is
  the capture group.
\<close>

definition file_d_at :: "jsstring \<Rightarrow> jsstring option" where
  "file_d_at s =
     (if take 8 s = js ''/file/d/'' then
        (let fid = takeWhile (\<lambda>c. c \<noteq> 0x2F) (drop 8 s)
         in if fid = [] then None else Some fid)
      else None)"

text \<open>
  \<open>/[?&]id=([^&]+)/\<close> anchored at the start of \<open>s\<close>: a \<open>?\<close> (U+003F) or \<open>&\<close> (U+0026), the
  literal \<open>id=\<close>, then the longest non-empty run of code units other than \<open>&\<close>.
\<close>

definition id_param_at :: "jsstring \<Rightarrow> jsstring option" where
  "id_param_at s =
     (case s of
        [] \<Rightarrow> None
      | c # cs \<Rightarrow>
          if (c = 0x3F \<or> c = 0x26) \<and> take 3 cs = js ''id='' then
            (let fid = takeWhile (\<lambda>c. c \<noteq> 0x26) (drop 3 cs)
             in if fid = [] then None else Some fid)
          else None)"

definition getGoogleDriveDownloadUrl :: "jsstring \<Rightarrow> jsstring" where
  "getGoogleDriveDownloadUrl viewUrl =
     (case search file_d_at viewUrl of
        Some fid \<Rightarrow> js ''https://drive.google.com/uc?export=download&id='' @ fid
      | None \<Rightarrow>
          (case search id_param_at viewUrl of
             Some fid \<Rightarrow> js ''https://drive.google.com/uc?export=download&id='' @ fid
           | None \<Rightarrow> viewUrl))"

subsection \<open>\<open>POST\<close>\<close>

text \<open>
  \<open>String.prototype.includes\<close>: the needle occurs at some position. \<open>startsWith\<close> is a prefix
  test.
\<close>

definition includes_str :: "jsstring \<Rightarrow> jsstring \<Rightarrow> bool" where
  "includes_str s needle =
     (search (\<lambda>t. if take (length needle) t = needle then Some t else None) s \<noteq> None)"

definition startsWith :: "jsstring \<Rightarrow> jsstring \<Rightarrow> bool" where
  "startsWith s p = (take (length p) s = p)"

text \<open>
  The six phrases of the access check (lines 114 to 116); the two Japanese ones are given by
  their code units.
\<close>

definition access_denied_phrases :: "jsstring list" where
  "access_denied_phrases =
     [js ''Request access'', [0x30A2, 0x30AF, 0x30BB, 0x30B9, 0x6A29], js ''Access denied'',
      js ''Sign in'', js ''You need permission'', [0x30ED, 0x30B0, 0x30A4, 0x30F3]]"

definition access_denied :: "jsstring \<Rightarrow> bool" where
  "access_denied html = list_ex (includes_str html) access_denied_phrases"

text \<open>
  \<open>/href="([^"]*confirm=[^"]*)"/\<close> anchored at the start of \<open>s\<close>: after the literal
  \<open>href="\<close> the group can only span the whole run of code units up to the next double quote
  (U+0022), which must exist, and the run must contain \<open>confirm=\<close>.
\<close>

definition confirm_at :: "jsstring \<Rightarrow> jsstring option" where
  "confirm_at s =
     (if take 6 s = js ''href='' @ [0x22] then
        (let run = takeWhile (\<lambda>c. c \<noteq> 0x22) (drop 6 s)
         in if drop (6 + length run) s \<noteq> [] \<and> includes_str run (js ''confirm='')
            then Some run else None)
      else None)"

text \<open>\<open>.replace(/&amp;/g, '&')\<close>.\<close>

function replace_amp :: "jsstring \<Rightarrow> jsstring" where
  "replace_amp [] = []"
| "replace_amp (c # cs) =
     (if take 5 (c # cs) = js ''&amp;'' then 0x26 # replace_amp (drop 4 cs)
      else c # replace_amp cs)"
  by pat_completeness auto
termination
  by (relation "measure length") auto

type_synonym bytes = "8 word list"

text \<open>
  What \<open>fetch\<close> resolves to, as far as the handler looks at it: \<open>ok\<close>, \<open>status\<close>, the
  \<open>content-type\<close> header (\<open>None\<close> when absent), and the body read as text or as bytes
  (\<open>None\<close> when the read rejects).
\<close>

record http_response =
  ok :: bool
  status :: nat
  content_type :: "jsstring option"
  text_body :: "jsstring option"
  bytes_body :: "bytes option"

text \<open>A file of the download directory: its content, or present but not readable.\<close>

datatype cached_file = Readable bytes | Unreadable

text \<open>
  The world the handler runs in: the files of \<open>DOWNLOAD_DIR\<close> by name, whether \<open>mkdir\<close> and
  \<open>writeFile\<close> succeed, and what the \<open>n\<close>-th \<open>fetch\<close> of the request answers for a URL
  (\<open>None\<close> when it rejects).
\<close>

record extract_env =
  files :: "jsstring \<Rightarrow> cached_file option"
  can_write :: bool
  net :: "nat \<Rightarrow> jsstring \<Rightarrow> http_response option"

text \<open>
  The JSON body of the request; a field is \<open>None\<close> when it is absent. The client sends
  strings.
\<close>

record extract_request =
  pdfUrl :: "jsstring option"
  title :: "jsstring option"
  pdfType :: "jsstring option"

text \<open>
  The error of a skip: \<open>Failed to download PDF: <status>\<close>, \<open>Access denied - no permission
  to view this PDF\<close>, \<open>Received HTML instead of PDF (access restriction)\<close>, \<open>Failed to save
  PDF: ...\<close>, or the text of an exception caught by the handler's outer \<open>catch\<close>.
\<close>

datatype skip_reason =
    DownloadFailed nat
  | AccessDenied
  | HtmlInsteadOfPdf
  | SaveFailed
  | Exception

text \<open>
  The JSON answer: status 400 with \<open>success: false\<close>; \<open>success: true\<close> with the title, the
  bytes (sent as base64, with their size), the file name and the \<open>cached\<close> flag; or
  \<open>success: false, skipped: true\<close>.
\<close>

datatype extract_result =
    BadRequest
  | Pdf jsstring bytes jsstring bool
  | Skipped skip_reason

text \<open>The answer, the files afterwards, and the URLs fetched, in order.\<close>

record extract_outcome =
  result :: extract_result
  files_after :: "jsstring \<Rightarrow> cached_file option"
  fetched :: "jsstring list"

definition savePdfAndRespond ::
  "extract_env \<Rightarrow> jsstring list \<Rightarrow> bytes \<Rightarrow> jsstring \<Rightarrow> jsstring \<Rightarrow> extract_outcome" where
  "savePdfAndRespond env log buffer ttl filename =
     (if can_write env then
        \<lparr>result = Pdf ttl buffer filename False,
         files_after = (files env)(filename := Some (Readable buffer)),
         fetched = log\<rparr>
      else \<lparr>result = Skipped SaveFailed, files_after = files env, fetched = log\<rparr>)"

definition skip :: "extract_env \<Rightarrow> jsstring list \<Rightarrow> skip_reason \<Rightarrow> extract_outcome" where
  "skip env log reason = \<lparr>result = Skipped reason, files_after = files env, fetched = log\<rparr>"

text \<open>Lines 125 to 152: the HTML answer that holds no access-denied phrase.\<close>

definition follow_confirm ::
  "extract_env \<Rightarrow> jsstring \<Rightarrow> jsstring \<Rightarrow> jsstring \<Rightarrow> jsstring \<Rightarrow> extract_outcome" where
  "follow_confirm env downloadUrl html ttl filename =
     (case search confirm_at html of
        None \<Rightarrow> skip env [downloadUrl] HtmlInsteadOfPdf
      | Some href \<Rightarrow>
          (let u = replace_amp href;
               confirmUrl = (if startsWith u (js ''http'') then u
                             else js ''https://drive.google.com'' @ u);
               log = [downloadUrl, confirmUrl]
           in case net env 1 confirmUrl of
                None \<Rightarrow> skip env log Exception
              | Some confirmResponse \<Rightarrow>
                  if ok confirmResponse then
                    (let confirmContentType =
                           (case content_type confirmResponse of None \<Rightarrow> [] | Some t \<Rightarrow> t)
                     in if includes_str confirmContentType (js ''application/pdf'') \<or>
                           includes_str confirmContentType (js ''octet-stream'')
                        then (case bytes_body confirmResponse of
                                None \<Rightarrow> skip env log Exception
                              | Some buffer \<Rightarrow> savePdfAndRespond env log buffer ttl filename)
                        else skip env log HtmlInsteadOfPdf)
                  else skip env log HtmlInsteadOfPdf))"

text \<open>Lines 79 to 157: the download, once the cache has not answered.\<close>

definition download ::
  "extract_env \<Rightarrow> jsstring \<Rightarrow> jsstring option \<Rightarrow> jsstring \<Rightarrow> jsstring \<Rightarrow> extract_outcome" where
  "download env url ptype ttl filename =
     (let downloadUrl =
            (if ptype = Some (js ''google-drive'') \<or> includes_str url (js ''drive.google.com'')
             then getGoogleDriveDownloadUrl url else url)
      in case net env 0 downloadUrl of
           None \<Rightarrow> skip env [downloadUrl] Exception
         | Some response \<Rightarrow>
             if \<not> ok response then skip env [downloadUrl] (DownloadFailed (status response))
             else
               (let contentType = (case content_type response of None \<Rightarrow> [] | Some t \<Rightarrow> t)
                in if includes_str contentType (js ''text/html'') then
                     (case text_body response of
                        None \<Rightarrow> skip env [downloadUrl] Exception
                      | Some html \<Rightarrow>
                          if access_denied html then skip env [downloadUrl] AccessDenied
                          else follow_confirm env downloadUrl html ttl filename)
                   else
                     (case bytes_body response of
                        None \<Rightarrow> skip env [downloadUrl] Exception
                      | Some buffer \<Rightarrow>
                          savePdfAndRespond env [downloadUrl] buffer ttl filename)))"

text \<open>
  The handler. The argument is \<open>None\<close> when the body of the request cannot be read as a JSON
  object; that exception, like the \<open>TypeError\<close> of \<open>sanitizeFilename\<close> on a missing title,
  ends in the outer \<open>catch\<close>.
\<close>

definition POST_extract :: "extract_env \<Rightarrow> extract_request option \<Rightarrow> extract_outcome" where
  "POST_extract env body =
     (case body of
        None \<Rightarrow> skip env [] Exception
      | Some req \<Rightarrow>
          (case pdfUrl req of
             None \<Rightarrow> \<lparr>result = BadRequest, files_after = files env, fetched = []\<rparr>
           | Some url \<Rightarrow>
               if url = [] then \<lparr>result = BadRequest, files_after = files env, fetched = []\<rparr>
               else
                 (case title req of
                    None \<Rightarrow> skip env [] Exception
                  | Some ttl \<Rightarrow>
                      (let filename = sanitizeFilename ttl @ js ''.pdf''
                       in case files env filename of
                            Some (Readable buffer) \<Rightarrow>
                              \<lparr>result = Pdf ttl buffer filename True,
                               files_after = files env, fetched = []\<rparr>
                          | Some Unreadable \<Rightarrow> download env url (pdfType req) ttl filename
                          | None \<Rightarrow> download env url (pdfType req) ttl filename))))"

subsection \<open>Sample requests and answers\<close>

text \<open>Concrete inputs on which the theorems about the handler are exercised.\<close>

definition sample_request :: extract_request where
  "sample_request =
     \<lparr>pdfUrl = Some (js ''https://example.org/a.pdf''), title = Some (js ''a''),
      pdfType = None\<rparr>"

definition not_found :: http_response where
  "not_found =
     \<lparr>ok = False, status = 404, content_type = None, text_body = None, bytes_body = None\<rparr>"

definition html_page :: "jsstring \<Rightarrow> http_response" where
  "html_page html =
     \<lparr>ok = True, status = 200, content_type = Some (js ''text/html; charset=utf-8''),
      text_body = Some html, bytes_body = None\<rparr>"

definition pdf_file :: "bytes \<Rightarrow> http_response" where
  "pdf_file b =
     \<lparr>ok = True, status = 200, content_type = Some (js ''application/pdf''),
      text_body = None, bytes_body = Some b\<rparr>"

text \<open>An empty download directory; the first fetch answers \<open>r0\<close>, any later one \<open>r1\<close>.\<close>

definition sample_env :: "http_response \<Rightarrow> http_response \<Rightarrow> extract_env" where
  "sample_env r0 r1 =
     \<lparr>files = (\<lambda>f. None), can_write = True,
      net = (\<lambda>n u. if n = 0 then Some r0 else Some r1)\<rparr>"

definition confirm_page :: jsstring where
  "confirm_page =
     js ''<a href='' @ [0x22] @ js ''/uc?export=download&amp;confirm=t&amp;id=1'' @ [0x22] @
     js ''>go</a>''"

section \<open>JSON values\<close>

text \<open>
  What \<open>JSON.parse\<close> returns. An object is the list of its members, one per key, in the
  order of the text. Numbers are restricted to the integers: the only numbers of a report
  are counts.
\<close>

datatype json =
    JNull
  | JBool bool
  | JNum int
  | JStr jsstring
  | JArr "json list"
  | JObj "(jsstring \<times> json) list"

text \<open>The truthiness that \<open>&&\<close>, \<open>||\<close> and \<open>if\<close> test.\<close>

fun truthy :: "json \<Rightarrow> bool" where
  "truthy JNull = False"
| "truthy (JBool b) = b"
| "truthy (JNum n) = (n \<noteq> 0)"
| "truthy (JStr s) = (s \<noteq> [])"
| "truthy (JArr vs) = True"
| "truthy (JObj ms) = True"

text \<open>
  \<open>v.key\<close> for a value other than \<open>null\<close> and a key that no prototype defines (the keys
  read by the sources are \<open>ingredients\<close>, \<open>dishes\<close>, \<open>cookingMethods\<close>, \<open>seasons\<close> and
  \<open>generatedAt\<close>): the member of an object, \<open>undefined\<close> (\<open>None\<close>) otherwise.
\<close>

fun member :: "json \<Rightarrow> jsstring \<Rightarrow> json option" where
  "member (JObj ms) key = map_of ms key"
| "member v key = None"

section \<open>The analyze endpoint: \<open>src/app/api/analyze/route.ts\<close>\<close>

text \<open>
  \<open>/\{[\s\S]*\}/\<close> anchored at the start of \<open>s\<close>: a \<open>{\<close> (U+007B), then as many code units
  as possible, then a \<open>}\<close> (U+007D); the match runs to the last \<open>}\<close> of the text.
\<close>

definition braces_at :: "jsstring \<Rightarrow> jsstring option" where
  "braces_at s =
     (case s of
        [] \<Rightarrow> None
      | c # cs \<Rightarrow>
          if c = 0x7B \<and> 0x7D \<in> set cs
          then Some (c # rev (dropWhile (\<lambda>d. d \<noteq> 0x7D) (rev cs)))
          else None)"

text \<open>The \<open>pdf\<close> member of the request, and \<open>PdfData\<close> of the client.\<close>

record PdfData =
  pdf_title :: jsstring
  pdfBase64 :: jsstring
  pdf_size :: nat

record analyze_request =
  pdf :: "PdfData option"
  apiKey :: "jsstring option"

text \<open>
  The answers: status 400 for a missing PDF or a missing key; \<open>success: false\<close> with the
  error \<open>JSON\<close> could not be extracted (status 200); status 500 with the text of a caught
  exception; \<open>success: true\<close> with the title and the four members of \<open>data\<close>.
\<close>

datatype analyze_result =
    PdfRequired
  | ApiKeyRequired
  | ExtractFailed
  | ServerError
  | Analyzed jsstring json json json json

text \<open>\<open>parsed.key || []\<close>.\<close>

definition or_empty_array :: "json \<Rightarrow> jsstring \<Rightarrow> json" where
  "or_empty_array parsed key =
     (case member parsed key of
        None \<Rightarrow> JArr []
      | Some v \<Rightarrow> if truthy v then v else JArr [])"

text \<open>
  The handler. \<open>gen\<close> is the call of the model with the key and the PDF (\<open>None\<close> when it
  throws), \<open>parse\<close> is \<open>JSON.parse\<close> (\<open>None\<close> when it throws); the body is \<open>None\<close> when it
  is not a JSON object. Reading a member of \<open>null\<close> throws.
\<close>

definition POST_analyze ::
  "(jsstring \<Rightarrow> PdfData \<Rightarrow> jsstring option) \<Rightarrow> (jsstring \<Rightarrow> json option) \<Rightarrow>
   analyze_request option \<Rightarrow> analyze_result" where
  "POST_analyze gen parse body =
     (case body of
        None \<Rightarrow> ServerError
      | Some req \<Rightarrow>
          (case pdf req of
             None \<Rightarrow> PdfRequired
           | Some p \<Rightarrow>
               if pdfBase64 p = [] then PdfRequired
               else
                 (case apiKey req of
                    None \<Rightarrow> ApiKeyRequired
                  | Some k \<Rightarrow>
                      if k = [] then ApiKeyRequired
                      else
                        (case gen k p of
                           None \<Rightarrow> ServerError
                         | Some responseText \<Rightarrow>
                             (case search braces_at responseText of
                                None \<Rightarrow> ExtractFailed
                              | Some jsonMatch \<Rightarrow>
                                  (case parse jsonMatch of
                                     None \<Rightarrow> ServerError
                                   | Some JNull \<Rightarrow> ServerError
                                   | Some parsed \<Rightarrow>
                                       Analyzed (pdf_title p)
                                         (or_empty_array parsed (js ''ingredients''))
                                         (or_empty_array parsed (js ''dishes''))
                                         (or_empty_array parsed (js ''cookingMethods''))
                                         (or_empty_array parsed (js ''seasons''))))))))"

text \<open>
  A sample request, and a stand-in for \<open>JSON.parse\<close> that knows one text only, on which the
  theorems about the handler are exercised.
\<close>

definition sample_pdf :: PdfData where
  "sample_pdf = \<lparr>pdf_title = js ''May issue'', pdfBase64 = js ''JVBERg=='', pdf_size = 4\<rparr>"

definition sample_analyze_request :: analyze_request where
  "sample_analyze_request = \<lparr>pdf = Some sample_pdf, apiKey = Some (js ''key'')\<rparr>"

definition sample_parse :: "jsstring \<Rightarrow> json option" where
  "sample_parse s =
     (if s = js ''{a} and {b}''
      then Some (JObj [(js ''ingredients'', JArr [JStr (js ''rice'')])]) else None)"

section \<open>The scrape endpoint: \<open>src/app/api/scrape/route.ts\<close>\<close>

text \<open>\<open>\d\<close> is \<open>[0-9]\<close>.\<close>

definition is_digit :: "code_unit \<Rightarrow> bool" where
  "is_digit c = (0x30 \<le> c \<and> c \<le> 0x39)"

text \<open>
  \<open>(\d{1,2})\<close> at the start of \<open>s\<close>, greedy: the digits taken and the rest. In both patterns
  a character that is no digit follows the group, so giving back the second digit can never
  turn a failure into a match, and the greedy choice is the only one to try.
\<close>

definition digits12 :: "jsstring \<Rightarrow> (jsstring \<times> jsstring) option" where
  "digits12 s =
     (case s of
        [] \<Rightarrow> None
      | a # r \<Rightarrow>
          if is_digit a then
            (case r of
               [] \<Rightarrow> Some ([a], [])
             | b # r' \<Rightarrow> if is_digit b then Some ([a, b], r') else Some ([a], r))
          else None)"

text \<open>
  \<open>(\d{4})\<close>, U+5E74, \<open>(\d{1,2})\<close>, U+6708 at the start of \<open>s\<close>: the common
  beginning of both patterns, with the year, the month and the rest.
\<close>

definition year_month_at :: "jsstring \<Rightarrow> (jsstring \<times> jsstring \<times> jsstring) option" where
  "year_month_at s =
     (if length (take 4 s) = 4 \<and> list_all is_digit (take 4 s) then
        (case drop 4 s of
           [] \<Rightarrow> None
         | c # r \<Rightarrow>
             if c = 0x5E74 then
               (case digits12 r of
                  None \<Rightarrow> None
                | Some (m, r') \<Rightarrow>
                    (case r' of
                       [] \<Rightarrow> None
                     | g # r'' \<Rightarrow> if g = 0x6708 then Some (take 4 s, m, r'') else None))
             else None)
      else None)"

text \<open>The date pattern: then \<open>(\d{1,2})\<close> and U+65E5.\<close>

definition date_at :: "jsstring \<Rightarrow> (jsstring \<times> jsstring \<times> jsstring) option" where
  "date_at s =
     (case year_month_at s of
        None \<Rightarrow> None
      | Some (y, m, r) \<Rightarrow>
          (case digits12 r of
             None \<Rightarrow> None
           | Some (d, r') \<Rightarrow>
               (case r' of
                  [] \<Rightarrow> None
                | n # r'' \<Rightarrow> if n = 0x65E5 then Some (y, m, d) else None)))"

text \<open>The issue pattern: then U+53F7.\<close>

definition issue_at :: "jsstring \<Rightarrow> (jsstring \<times> jsstring) option" where
  "issue_at s =
     (case year_month_at s of
        None \<Rightarrow> None
      | Some (y, m, r) \<Rightarrow>
          (case r of
             [] \<Rightarrow> None
           | g # r' \<Rightarrow> if g = 0x53F7 then Some (y, m) else None))"

text \<open>\<open>.padStart(2, '0')\<close>.\<close>

definition padStart2 :: "jsstring \<Rightarrow> jsstring" where
  "padStart2 s = replicate (2 - length s) 0x30 @ s"

text \<open>
  Lines 87 to 95 of \<open>fetchArticleDetails\<close>: \<open>article.date\<close>, which is \<open>''\<close> before, from the
  page and the title of the article.
\<close>

definition article_date :: "jsstring \<Rightarrow> jsstring \<Rightarrow> jsstring" where
  "article_date html ttl =
     (let date1 =
            (case search date_at html of
               None \<Rightarrow> []
             | Some (y, m, d) \<Rightarrow> y @ js ''-'' @ padStart2 m @ js ''-'' @ padStart2 d)
      in case search issue_at ttl of
           None \<Rightarrow> date1
         | Some (y, m) \<Rightarrow>
             if date1 = [] then y @ js ''-'' @ padStart2 m @ js ''-01'' else date1)"

text \<open>
  The date of \<open>fetchArticleDetails\<close>. \<open>page\<close> is what \<open>fetchPage\<close> returns (\<open>None\<close> for
  \<open>null\<close>); \<open>title_of\<close> is the title that the HTML library finds in the page (\<open>None\<close> when
  that part throws, which the \<open>catch\<close> ignores).
\<close>

definition fetchArticleDetails_date ::
  "jsstring option \<Rightarrow> (jsstring \<Rightarrow> jsstring option) \<Rightarrow> jsstring" where
  "fetchArticleDetails_date page title_of =
     (case page of
        None \<Rightarrow> []
      | Some html \<Rightarrow>
          if html = [] then []
          else (case title_of html of None \<Rightarrow> [] | Some ttl \<Rightarrow> article_date html ttl))"

section \<open>The page: \<open>handleAnalyze\<close> and the report\<close>

subsection \<open>Counting and ranking\<close>

text \<open>\<open>String.prototype.trim\<close>: white space is stripped at both ends.\<close>

definition trim :: "jsstring \<Rightarrow> jsstring" where
  "trim s = rev (dropWhile is_space (rev (dropWhile is_space s)))"

text \<open>
  A \<open>Map<string, number>\<close> as the list of its entries in insertion order, which is the
  order of \<open>map.entries()\<close>. \<open>map.set\<close> overwrites the value of a key in place and appends a
  new key at the end.
\<close>

type_synonym count_map = "(jsstring \<times> nat) list"

fun map_set :: "jsstring \<Rightarrow> nat \<Rightarrow> count_map \<Rightarrow> count_map" where
  "map_set k v [] = [(k, v)]"
| "map_set k v (e # m) = (if fst e = k then (k, v) # m else e # map_set k v m)"

text \<open>
  One of the four inner loops (lines 389 to 404):
  \<open>key = item.trim(); if (key) map.set(key, (map.get(key) || 0) + 1)\<close>.
\<close>

fun count_items :: "count_map \<Rightarrow> jsstring list \<Rightarrow> count_map" where
  "count_items m [] = m"
| "count_items m (item # items) =
     (let key = trim item
      in count_items
           (if key \<noteq> []
            then map_set key ((case map_of m key of None \<Rightarrow> 0 | Some n \<Rightarrow> n) + 1) m
            else m)
           items)"

record RankingItem =
  name :: jsstring
  count :: nat

text \<open>
  \<open>sortMap\<close>: the entries sorted with the comparator \<open>b[1] - a[1]\<close>, that is by count,
  largest first. \<open>Array.prototype.sort\<close> is stable (ECMAScript 2019), as \<open>sort_key\<close> is:
  entries with equal counts keep their insertion order.
\<close>

definition sortMap :: "count_map \<Rightarrow> RankingItem list" where
  "sortMap m =
     map (\<lambda>(n, c). \<lparr>name = n, count = c\<rparr>) (sort_key (\<lambda>e. - int (snd e)) m)"

record AnalysisResults =
  ingredients :: "RankingItem list"
  dishes :: "RankingItem list"
  cookingMethods :: "RankingItem list"
  seasons :: "RankingItem list"

subsection \<open>The loop of \<open>handleAnalyze\<close>\<close>

text \<open>
  The answer of the analyze endpoint reaches the loop as whatever \<open>res.json()\<close> gives, a
  JSON value, and the loop reads it without checking its shape. \<open>for (const item of v || [])\<close>
  iterates the elements of an array and the code points of a string, and throws a
  \<open>TypeError\<close> on any other truthy value.
\<close>

definition lead_surrogate :: "code_unit \<Rightarrow> bool" where
  "lead_surrogate c = (0xD800 \<le> c \<and> c \<le> 0xDBFF)"

definition trail_surrogate :: "code_unit \<Rightarrow> bool" where
  "trail_surrogate c = (0xDC00 \<le> c \<and> c \<le> 0xDFFF)"

fun code_points :: "jsstring \<Rightarrow> jsstring list" where
  "code_points [] = []"
| "code_points [c] = [[c]]"
| "code_points (c # d # cs) =
     (if lead_surrogate c \<and> trail_surrogate d then [c, d] # code_points cs
      else [c] # code_points (d # cs))"

text \<open>The values the loop iterates over; \<open>None\<close> when the member is not iterable.\<close>

definition iterated :: "json option \<Rightarrow> json list option" where
  "iterated v =
     (case v of
        None \<Rightarrow> Some []
      | Some x \<Rightarrow>
          if truthy x then
            (case x of
               JArr items \<Rightarrow> Some items
             | JStr s \<Rightarrow> Some (map JStr (code_points s))
             | _ \<Rightarrow> None)
          else Some [])"

text \<open>
  One of the four inner loops on the values iterated: the step of \<open>count_items\<close> for an
  item that is a string; \<open>item.trim()\<close> throws a \<open>TypeError\<close> on any other item. The result
  is the map at the end or at the throw, and whether the loop came to its end.
\<close>

fun count_json_items :: "count_map \<Rightarrow> json list \<Rightarrow> count_map \<times> bool" where
  "count_json_items m [] = (m, True)"
| "count_json_items m (JStr item # items) =
     (let key = trim item
      in count_json_items
           (if key \<noteq> []
            then map_set key ((case map_of m key of None \<Rightarrow> 0 | Some n \<Rightarrow> n) + 1) m
            else m)
           items)"
| "count_json_items m (v # items) = (m, False)"

definition count_member :: "count_map \<Rightarrow> json option \<Rightarrow> count_map \<times> bool" where
  "count_member m v =
     (case iterated v of
        None \<Rightarrow> (m, False)
      | Some items \<Rightarrow> count_json_items m items)"

text \<open>
  What the loop can catch: the \<open>AbortError\<close> of an aborted \<open>fetch\<close>, the \<open>Error\<close> with the
  message \<open>Canceled\<close>, and any other error.
\<close>

datatype js_error = AbortError | Canceled | OtherError

text \<open>How \<open>fetch\<close> and \<open>res.json()\<close> end: with a JSON value or with an error.\<close>

datatype fetch_outcome = Replied json | Rejected js_error

text \<open>
  What happens in one iteration: whether \<open>signal.aborted\<close> holds at the check of line 373,
  how \<open>fetch\<close> and \<open>res.json()\<close> end, and whether the wait of lines 420 to 427 is rejected
  because the signal is or becomes aborted.
\<close>

record iteration =
  aborted_at_check :: bool
  outcome :: fetch_outcome
  aborted_in_wait :: bool

record tallies =
  ingredientsMap :: count_map
  dishesMap :: count_map
  cookingMethodsMap :: count_map
  seasonsMap :: count_map
  successCount :: nat
  errorCount :: nat

definition no_tallies :: tallies where
  "no_tallies =
     \<lparr>ingredientsMap = [], dishesMap = [], cookingMethodsMap = [], seasonsMap = [],
      successCount = 0, errorCount = 0\<rparr>"

text \<open>
  Lines 388 to 405 on \<open>data.data\<close>: the four loops in their order and \<open>successCount++\<close>.
  A throw ends them where it happens; what was counted until then stays in the maps. The
  result tells whether the end was reached.
\<close>

definition tally_json :: "tallies \<Rightarrow> json \<Rightarrow> tallies \<times> bool" where
  "tally_json t dd =
     (case count_member (ingredientsMap t) (member dd (js ''ingredients'')) of
        (m1, ok1) \<Rightarrow>
          if \<not> ok1 then (t\<lparr>ingredientsMap := m1\<rparr>, False)
          else
            (case count_member (dishesMap t) (member dd (js ''dishes'')) of
               (m2, ok2) \<Rightarrow>
                 if \<not> ok2 then (t\<lparr>ingredientsMap := m1, dishesMap := m2\<rparr>, False)
                 else
                   (case count_member (cookingMethodsMap t)
                           (member dd (js ''cookingMethods'')) of
                      (m3, ok3) \<Rightarrow>
                        if \<not> ok3
                        then (t\<lparr>ingredientsMap := m1, dishesMap := m2,
                                cookingMethodsMap := m3\<rparr>, False)
                        else
                          (case count_member (seasonsMap t) (member dd (js ''seasons'')) of
                             (m4, ok4) \<Rightarrow>
                               if \<not> ok4
                               then (t\<lparr>ingredientsMap := m1, dishesMap := m2,
                                       cookingMethodsMap := m3, seasonsMap := m4\<rparr>, False)
                               else (t\<lparr>ingredientsMap := m1, dishesMap := m2,
                                       cookingMethodsMap := m3, seasonsMap := m4,
                                       successCount := successCount t + 1\<rparr>, True)))))"

text \<open>
  The inner \<open>try\<close> (lines 378 to 417): an abort is thrown on (\<open>Inl\<close>). Every other error
  counts as an error: a rejected fetch, the \<open>TypeError\<close> of reading a member of \<open>null\<close>, and
  the \<open>TypeError\<close> of a loop, after which the maps keep what was counted before it. An answer
  without truthy \<open>success\<close> and \<open>data\<close> counts as an error as well.
\<close>

definition analyze_one :: "tallies \<Rightarrow> fetch_outcome \<Rightarrow> js_error + tallies" where
  "analyze_one t out =
     (case out of
        Rejected e \<Rightarrow>
          if e = AbortError \<or> e = Canceled then Inl e
          else Inr (t\<lparr>errorCount := errorCount t + 1\<rparr>)
      | Replied v \<Rightarrow>
          (case v of
             JNull \<Rightarrow> Inr (t\<lparr>errorCount := errorCount t + 1\<rparr>)
           | _ \<Rightarrow>
               (case (member v (js ''success''), member v (js ''data'')) of
                  (Some s, Some dd) \<Rightarrow>
                    if truthy s \<and> truthy dd then
                      (case tally_json t dd of
                         (t', True) \<Rightarrow> Inr t'
                       | (t', False) \<Rightarrow> Inr (t'\<lparr>errorCount := errorCount t' + 1\<rparr>))
                    else Inr (t\<lparr>errorCount := errorCount t + 1\<rparr>)
                | _ \<Rightarrow> Inr (t\<lparr>errorCount := errorCount t + 1\<rparr>))))"

datatype loop_exit = Finished | Thrown js_error

text \<open>The \<open>for\<close> loop (lines 371 to 428), one list element per iteration.\<close>

fun analyze_loop :: "tallies \<Rightarrow> iteration list \<Rightarrow> loop_exit \<times> tallies" where
  "analyze_loop t [] = (Finished, t)"
| "analyze_loop t (it # its) =
     (if aborted_at_check it then (Thrown Canceled, t)
      else
        (case analyze_one t (outcome it) of
           Inl e \<Rightarrow> (Thrown e, t)
         | Inr t' \<Rightarrow>
             if aborted_in_wait it then (Thrown Canceled, t') else analyze_loop t' its))"

definition report :: "tallies \<Rightarrow> AnalysisResults" where
  "report t =
     \<lparr>ingredients = sortMap (ingredientsMap t), dishes = sortMap (dishesMap t),
      cookingMethods = sortMap (cookingMethodsMap t), seasons = sortMap (seasonsMap t)\<rparr>"

datatype step = Idle | Scraping | Extracting | Analyzing | Loading | Complete

text \<open>
  The messages of \<open>setError\<close>: the key is missing, there is no PDF to analyse, or the text
  of an error.
\<close>

datatype ui_error = ApiKeyMissing | NoPdfs | ErrorText js_error

text \<open>The state of the page that \<open>handleAnalyze\<close> writes. Log and progress are left out.\<close>

record ui_state =
  step :: step
  results :: "AnalysisResults option"
  error :: "ui_error option"

text \<open>
  \<open>handleAnalyze\<close>. \<open>world i pdf\<close> tells what happens in iteration \<open>i\<close>, in which \<open>pdf\<close> is
  sent. The result is the state when the handler has returned.
\<close>

definition handleAnalyze ::
  "jsstring \<Rightarrow> PdfData list \<Rightarrow> (nat \<Rightarrow> PdfData \<Rightarrow> iteration) \<Rightarrow> ui_state \<Rightarrow> ui_state" where
  "handleAnalyze key pdfDataList world st =
     (if key = [] then st\<lparr>error := Some ApiKeyMissing\<rparr>
      else if pdfDataList = [] then st\<lparr>error := Some NoPdfs\<rparr>
      else
        (case analyze_loop no_tallies (map2 world [0..<length pdfDataList] pdfDataList) of
           (Finished, t) \<Rightarrow> st\<lparr>results := Some (report t), step := Complete\<rparr>
         | (Thrown e, t) \<Rightarrow>
             if e = Canceled \<or> e = AbortError
             then st\<lparr>results := Some (report t), step := Complete\<rparr>
             else st\<lparr>error := Some (ErrorText e), step := Idle\<rparr>))"

subsection \<open>Documents analysed to the end\<close>

text \<open>
  The data of an answer whose four loops come to their end, as the loops read it: for each
  member the strings iterated; a member is \<open>None\<close> when it is missing or falsy, which
  \<open>|| []\<close> turns into the empty array.
\<close>

record analysis_data =
  data_ingredients :: "jsstring list option"
  data_dishes :: "jsstring list option"
  data_cookingMethods :: "jsstring list option"
  data_seasons :: "jsstring list option"

definition or_empty :: "'a list option \<Rightarrow> 'a list" where
  "or_empty v = (case v of None \<Rightarrow> [] | Some xs \<Rightarrow> xs)"

text \<open>Lines 388 to 405 for such data: the four loops and \<open>successCount++\<close>.\<close>

definition tally :: "tallies \<Rightarrow> analysis_data \<Rightarrow> tallies" where
  "tally t d =
     t\<lparr>ingredientsMap := count_items (ingredientsMap t) (or_empty (data_ingredients d)),
       dishesMap := count_items (dishesMap t) (or_empty (data_dishes d)),
       cookingMethodsMap := count_items (cookingMethodsMap t) (or_empty (data_cookingMethods d)),
       seasonsMap := count_items (seasonsMap t) (or_empty (data_seasons d)),
       successCount := successCount t + 1\<rparr>"

text \<open>The strings of a list of values; \<open>None\<close> when one of them is no string.\<close>

fun strings_of :: "json list \<Rightarrow> jsstring list option" where
  "strings_of [] = Some []"
| "strings_of (JStr s # vs) = map_option ((#) s) (strings_of vs)"
| "strings_of (v # vs) = None"

text \<open>
  What a loop reads from a member when it comes to its end; the outer \<open>None\<close> when it
  throws instead.
\<close>

definition read_member :: "json option \<Rightarrow> jsstring list option option" where
  "read_member v =
     (case v of
        None \<Rightarrow> Some None
      | Some x \<Rightarrow>
          if truthy x then
            (case x of
               JArr items \<Rightarrow> map_option Some (strings_of items)
             | JStr s \<Rightarrow> Some (Some (code_points s))
             | _ \<Rightarrow> None)
          else Some None)"

definition read_data :: "json \<Rightarrow> analysis_data option" where
  "read_data dd =
     (case (read_member (member dd (js ''ingredients'')), read_member (member dd (js ''dishes'')),
            read_member (member dd (js ''cookingMethods'')),
            read_member (member dd (js ''seasons''))) of
        (Some i, Some d, Some c, Some s) \<Rightarrow>
          Some \<lparr>data_ingredients = i, data_dishes = d, data_cookingMethods = c,
                data_seasons = s\<rparr>
      | _ \<Rightarrow> None)"

text \<open>\<open>data.data\<close> of an answer that enters the four loops.\<close>

definition counted_data :: "json \<Rightarrow> json option" where
  "counted_data v =
     (case (member v (js ''success''), member v (js ''data'')) of
        (Some s, Some dd) \<Rightarrow> if truthy s \<and> truthy dd then Some dd else None
      | _ \<Rightarrow> None)"

subsection \<open>Reading the run\<close>

text \<open>
  The words of the specification about a cancelled run. Cancellation is observed in an
  iteration at the check, in the fetch, or in the wait. The document of an iteration is
  analysed successfully before that when the check passes, the answer has \<open>success\<close> and
  \<open>data\<close>, and the four loops come to their end, which is when the handler counts it in
  \<open>successCount\<close>. An answer breaks off when it enters the loops and one of them throws.
\<close>

definition observes_cancel :: "iteration \<Rightarrow> bool" where
  "observes_cancel it =
     (aborted_at_check it \<or> outcome it = Rejected AbortError \<or> outcome it = Rejected Canceled \<or>
      aborted_in_wait it)"

definition analyzed :: "iteration \<Rightarrow> analysis_data option" where
  "analyzed it =
     (if aborted_at_check it then None
      else (case outcome it of
              Rejected e \<Rightarrow> None
            | Replied v \<Rightarrow>
                (case counted_data v of None \<Rightarrow> None | Some dd \<Rightarrow> read_data dd)))"

definition breaks_off :: "iteration \<Rightarrow> bool" where
  "breaks_off it =
     (\<not> aborted_at_check it \<and>
      (case outcome it of
         Rejected e \<Rightarrow> False
       | Replied v \<Rightarrow>
           (case counted_data v of None \<Rightarrow> False | Some dd \<Rightarrow> read_data dd = None)))"

text \<open>
  What an iteration leaves in the tallies when no cancellation is seen before the wait and
  the answer does not break off.
\<close>

definition absorb :: "tallies \<Rightarrow> iteration \<Rightarrow> tallies" where
  "absorb t it =
     (case analyzed it of
        None \<Rightarrow> t\<lparr>errorCount := errorCount t + 1\<rparr>
      | Some d \<Rightarrow> tally t d)"

text \<open>
  The aggregation of a list of analysed documents: for each of the four categories, all
  items of all documents are counted, and the counts are ranked.
\<close>

definition aggregation :: "analysis_data list \<Rightarrow> AnalysisResults" where
  "aggregation ds =
     \<lparr>ingredients = sortMap (count_items [] (concat (map (\<lambda>d. or_empty (data_ingredients d)) ds))),
      dishes = sortMap (count_items [] (concat (map (\<lambda>d. or_empty (data_dishes d)) ds))),
      cookingMethods =
        sortMap (count_items [] (concat (map (\<lambda>d. or_empty (data_cookingMethods d)) ds))),
      seasons = sortMap (count_items [] (concat (map (\<lambda>d. or_empty (data_seasons d)) ds)))\<rparr>"

subsection \<open>Sample runs\<close>




definition sample_results :: AnalysisResults where
  "sample_results =
     \<lparr>ingredients = [\<lparr>name = js ''rice'', count = 2\<rparr>, \<lparr>name = js ''miso'', count = 1\<rparr>],
      dishes = [], cookingMethods = [], seasons = []\<rparr>"


subsection \<open>The report as JSON\<close>

definition ranking_json :: "RankingItem list \<Rightarrow> json" where
  "ranking_json items =
     JArr (map (\<lambda>i. JObj [(js ''name'', JStr (name i)), (js ''count'', JNum (int (count i)))])
             items)"

text \<open>The object \<open>data\<close> of \<open>downloadReportAsJson\<close>; \<open>now\<close> is \<open>new Date().toISOString()\<close>.\<close>

definition report_document :: "jsstring \<Rightarrow> AnalysisResults \<Rightarrow> json" where
  "report_document now r =
     JObj [(js ''generatedAt'', JStr now),
           (js ''ingredients'', ranking_json (ingredients r)),
           (js ''dishes'', ranking_json (dishes r)),
           (js ''cookingMethods'', ranking_json (cookingMethods r)),
           (js ''seasons'', ranking_json (seasons r))]"

text \<open>
  \<open>downloadReportAsJson\<close>: nothing without results; otherwise the name and the text of the
  file offered for download. \<open>stringify\<close> is \<open>JSON.stringify(_, null, 2)\<close>. The second
  \<open>toISOString\<close> of the handler is taken to give the same date as the first.
\<close>

definition downloadReportAsJson ::
  "(json \<Rightarrow> jsstring) \<Rightarrow> jsstring \<Rightarrow> AnalysisResults option \<Rightarrow> (jsstring \<times> jsstring) option" where
  "downloadReportAsJson stringify now res =
     (case res of
        None \<Rightarrow> None
      | Some r \<Rightarrow>
          Some (js ''kamaya-report-'' @ takeWhile (\<lambda>c. c \<noteq> 0x54) now @ js ''.json'',
                stringify (report_document now r)))"

text \<open>
  What \<open>loadReportFromJson\<close> does with the selected file: nothing without a file;
  \<open>setResults\<close> with the four members and the step \<open>complete\<close>; the error of an invalid
  format; or the error of a file that cannot be read as JSON.
\<close>

datatype load_result =
    NoFile
  | Loaded json json json json
  | InvalidFormat
  | ReadFailed

text \<open>
  \<open>loadReportFromJson\<close>; \<open>file\<close> is the text of the selected file, \<open>parse\<close> is \<open>JSON.parse\<close>
  (\<open>None\<close> when it throws). Reading a member of \<open>null\<close> throws, and the \<open>catch\<close> reports
  it like a text that is no JSON.
\<close>

definition loadReportFromJson :: "(jsstring \<Rightarrow> json option) \<Rightarrow> jsstring option \<Rightarrow> load_result" where
  "loadReportFromJson parse file =
     (case file of
        None \<Rightarrow> NoFile
      | Some text \<Rightarrow>
          (case parse text of
             None \<Rightarrow> ReadFailed
           | Some JNull \<Rightarrow> ReadFailed
           | Some json \<Rightarrow>
               (case (member json (js ''ingredients''), member json (js ''dishes''),
                      member json (js ''cookingMethods''), member json (js ''seasons'')) of
                  (Some i, Some d, Some c, Some s) \<Rightarrow>
                    if truthy i \<and> truthy d \<and> truthy c \<and> truthy s then Loaded i d c s
                    else InvalidFormat
                | _ \<Rightarrow> InvalidFormat)))"

text \<open>
  A sample report text and stand-ins for \<open>JSON.stringify\<close> and \<open>JSON.parse\<close> that know
  this report only.
\<close>

definition sample_report_text :: jsstring where
  \<open>sample_report_text =
     js ''{"generatedAt":"2024-05-07T09:30:00.000Z","ingredients":[{"name":"rice","count":2},'' @
     js ''{"name":"miso","count":1}],"dishes":[],"cookingMethods":[],"seasons":[]}''\<close>

definition sample_report_stringify :: "json \<Rightarrow> jsstring" where
  "sample_report_stringify v =
     (if v = report_document (js ''2024-05-07T09:30:00.000Z'') sample_results
      then sample_report_text else js ''null'')"

definition sample_report_parse :: "jsstring \<Rightarrow> json option" where
  "sample_report_parse s =
     (if s = sample_report_text
      then Some (report_document (js ''2024-05-07T09:30:00.000Z'') sample_results) else None)"

section \<open>Properties of the leftmost search\<close>

lemma all_le_Suc_shift: "(\<forall>k\<le>Suc n. P k) \<longleftrightarrow> P 0 \<and> (\<forall>k\<le>n. P (Suc k))"
proof
  assume "\<forall>k\<le>Suc n. P k"
  then show "P 0 \<and> (\<forall>k\<le>n. P (Suc k))" by simp
next
  assume a: "P 0 \<and> (\<forall>k\<le>n. P (Suc k))"
  show "\<forall>k\<le>Suc n. P k"
  proof (intro allI impI)
    fix k assume "k \<le> Suc n"
    with a show "P k" by (cases k) simp_all
  qed
qed

lemma search_None_iff:
  "search m s = None \<longleftrightarrow> (\<forall>k\<le>length s. m (drop k s) = None)"
proof (induction s)
  case Nil
  then show ?case by simp
next
  case (Cons c cs)
  show ?case
  proof (cases "m (c # cs)")
    case None
    then show ?thesis using Cons.IH by (simp add: all_le_Suc_shift)
  next
    case (Some r)
    then have "\<not> (\<forall>k\<le>length (c # cs). m (drop k (c # cs)) = None)"
      by (intro notI) (simp add: all_le_Suc_shift)
    with Some show ?thesis by simp
  qed
qed

lemma search_leftmost:
  "m s = Some r \<Longrightarrow> \<forall>j<length pre. m (drop j (pre @ s)) = None \<Longrightarrow>
   search m (pre @ s) = Some r"
proof (induction pre)
  case Nil
  then show ?case by (cases s) auto
next
  case (Cons c pre)
  from Cons.prems(2) have h0: "m (c # pre @ s) = None" by auto
  have "\<forall>j<length pre. m (drop j (pre @ s)) = None"
  proof (intro allI impI)
    fix j assume "j < length pre"
    then have "Suc j < length (c # pre)" by simp
    with Cons.prems(2) have "m (drop (Suc j) ((c # pre) @ s)) = None" by blast
    then show "m (drop j (pre @ s)) = None" by simp
  qed
  with Cons.IH Cons.prems(1) have "search m (pre @ s) = Some r" by blast
  with h0 show ?case by simp
qed

lemma all_less_upt: "(\<forall>j<n. P j) \<longleftrightarrow> list_all P [0..<n]"
  by (auto simp: list_all_iff)

lemma all_le_upt: "(\<forall>j\<le>n. P j) \<longleftrightarrow> list_all P [0..<Suc n]"
  by (auto simp: list_all_iff less_Suc_eq_le simp del: upt_Suc)

lemma takeWhile_run:
  "\<forall>c\<in>set xs. P c \<Longrightarrow> rest = [] \<or> \<not> P (hd rest) \<Longrightarrow> takeWhile P (xs @ rest) = xs"
  by (cases rest) (auto simp: takeWhile_append2)

section \<open>The Google Drive URL transformer\<close>

lemma file_d_at_hit:
  assumes "fid \<noteq> []" "0x2F \<notin> set fid" "rest = [] \<or> hd rest = 0x2F"
  shows "file_d_at (js ''/file/d/'' @ fid @ rest) = Some fid"
proof -
  have l: "length (js ''/file/d/'') = 8" by (simp add: js_def)
  have "takeWhile (\<lambda>c. c \<noteq> 0x2F) (fid @ rest) = fid"
    using assms by (intro takeWhile_run) auto
  then show ?thesis using assms(1) l by (simp add: file_d_at_def)
qed

lemma id_param_at_hit:
  assumes "sep = 0x3F \<or> sep = 0x26" "qid \<noteq> []" "0x26 \<notin> set qid"
    "rest = [] \<or> hd rest = 0x26"
  shows "id_param_at (sep # js ''id='' @ qid @ rest) = Some qid"
proof -
  have l: "length (js ''id='') = 3" by (simp add: js_def)
  have "takeWhile (\<lambda>c. c \<noteq> 0x26) (qid @ rest) = qid"
    using assms by (intro takeWhile_run) auto
  then show ?thesis using assms(1,2) l by (simp add: id_param_at_def)
qed

lemma path_case:
  assumes u: "url = pre @ js ''/file/d/'' @ fid @ rest"
    and "fid \<noteq> []" "0x2F \<notin> set fid" "rest = [] \<or> hd rest = 0x2F"
    and lm: "\<forall>j<length pre. file_d_at (drop j url) = None"
  shows "search file_d_at url = Some fid"
proof -
  have "file_d_at (js ''/file/d/'' @ fid @ rest) = Some fid"
    using assms(2-4) by (rule file_d_at_hit)
  then have "search file_d_at (pre @ js ''/file/d/'' @ fid @ rest) = Some fid"
    using lm[unfolded u] by (rule search_leftmost)
  then show ?thesis unfolding u .
qed

lemma query_case:
  assumes u: "url = pre @ sep # js ''id='' @ qid @ rest"
    and "sep = 0x3F \<or> sep = 0x26" "qid \<noteq> []" "0x26 \<notin> set qid"
      "rest = [] \<or> hd rest = 0x26"
    and lm: "\<forall>j<length pre. id_param_at (drop j url) = None"
  shows "search id_param_at url = Some qid"
proof -
  have "id_param_at (sep # js ''id='' @ qid @ rest) = Some qid"
    using assms(2-5) by (rule id_param_at_hit)
  then have "search id_param_at (pre @ sep # js ''id='' @ qid @ rest) = Some qid"
    using lm[unfolded u] by (rule search_leftmost)
  then show ?thesis unfolding u .
qed

text \<open>
  Claim C1. Whenever the viewer URL holds a path segment \<open>/file/d/<id>\<close> (a non-empty
  \<open>id\<close> without \<open>/\<close>, ended by a \<open>/\<close> or by the end of the URL), the transformer returns
  \<open>https://drive.google.com/uc?export=download&id=<id>\<close> for the leftmost such segment,
  whatever query parameters the URL has besides: the path pattern is tried first. When no
  position of the URL matches the path pattern and the URL holds a query parameter
  \<open>?id=<id>\<close> or \<open>&id=<id>\<close> (a non-empty \<open>id\<close> without \<open>&\<close>, ended by a \<open>&\<close> or by the end of
  the URL), the same direct-download URL is returned for the leftmost such parameter. The
  transformer is a function of the URL alone.
\<close>

theorem getGoogleDriveDownloadUrl_direct_download:
  "(url = pre @ js ''/file/d/'' @ fid @ rest \<and> fid \<noteq> [] \<and> 0x2F \<notin> set fid \<and>
     (rest = [] \<or> hd rest = 0x2F) \<and> (\<forall>j<length pre. file_d_at (drop j url) = None)
    \<longrightarrow> getGoogleDriveDownloadUrl url =
          js ''https://drive.google.com/uc?export=download&id='' @ fid)
 \<and> ((\<forall>j\<le>length url. file_d_at (drop j url) = None) \<and>
     url = pre @ sep # js ''id='' @ qid @ rest \<and> (sep = 0x3F \<or> sep = 0x26) \<and>
     qid \<noteq> [] \<and> 0x26 \<notin> set qid \<and> (rest = [] \<or> hd rest = 0x26) \<and>
     (\<forall>j<length pre. id_param_at (drop j url) = None)
    \<longrightarrow> getGoogleDriveDownloadUrl url =
          js ''https://drive.google.com/uc?export=download&id='' @ qid)"
proof (intro conjI impI; elim conjE)
  assume "url = pre @ js ''/file/d/'' @ fid @ rest" "fid \<noteq> []" "0x2F \<notin> set fid"
     "rest = [] \<or> hd rest = 0x2F" "\<forall>j<length pre. file_d_at (drop j url) = None"
  then have "search file_d_at url = Some fid" by (rule path_case)
  then show "getGoogleDriveDownloadUrl url =
      js ''https://drive.google.com/uc?export=download&id='' @ fid"
    by (simp add: getGoogleDriveDownloadUrl_def)
next
  assume "\<forall>j\<le>length url. file_d_at (drop j url) = None"
  then have n: "search file_d_at url = None" by (simp add: search_None_iff)
  assume "url = pre @ sep # js ''id='' @ qid @ rest" "sep = 0x3F \<or> sep = 0x26"
     "qid \<noteq> []" "0x26 \<notin> set qid" "rest = [] \<or> hd rest = 0x26"
     "\<forall>j<length pre. id_param_at (drop j url) = None"
  then have "search id_param_at url = Some qid" by (rule query_case)
  with n show "getGoogleDriveDownloadUrl url =
      js ''https://drive.google.com/uc?export=download&id='' @ qid"
    by (simp add: getGoogleDriveDownloadUrl_def)
qed

theorem getGoogleDriveDownloadUrl_direct_download_witness:
  "js ''https://drive.google.com/file/d/1AbC/view?id=zz'' =
     js ''https://drive.google.com'' @ js ''/file/d/'' @ js ''1AbC'' @ js ''/view?id=zz'' \<and>
   js ''1AbC'' \<noteq> [] \<and> 0x2F \<notin> set (js ''1AbC'') \<and> hd (js ''/view?id=zz'') = 0x2F \<and>
   list_all (\<lambda>j. file_d_at (drop j (js ''https://drive.google.com/file/d/1AbC/view?id=zz'')) = None)
     [0..<length (js ''https://drive.google.com'')] \<and>
   getGoogleDriveDownloadUrl (js ''https://drive.google.com/file/d/1AbC/view?id=zz'') =
     js ''https://drive.google.com/uc?export=download&id=1AbC'' \<and>
   list_all (\<lambda>j. file_d_at (drop j (js ''https://drive.google.com/open?id=1AbC&usp=sharing'')) = None)
     [0..<Suc (length (js ''https://drive.google.com/open?id=1AbC&usp=sharing''))] \<and>
   js ''https://drive.google.com/open?id=1AbC&usp=sharing'' =
     js ''https://drive.google.com/open'' @ 0x3F # js ''id='' @ js ''1AbC'' @ js ''&usp=sharing'' \<and>
   0x26 \<notin> set (js ''1AbC'') \<and> hd (js ''&usp=sharing'') = 0x26 \<and>
   list_all (\<lambda>j. id_param_at (drop j (js ''https://drive.google.com/open?id=1AbC&usp=sharing'')) = None)
     [0..<length (js ''https://drive.google.com/open'')] \<and>
   getGoogleDriveDownloadUrl (js ''https://drive.google.com/open?id=1AbC&usp=sharing'') =
     js ''https://drive.google.com/uc?export=download&id=1AbC''"
proof -
  have e: "js ''https://drive.google.com/uc?export=download&id='' @ js ''1AbC'' =
      js ''https://drive.google.com/uc?export=download&id=1AbC''"
    by (simp add: js_def)
  have d1: "js ''https://drive.google.com/file/d/1AbC/view?id=zz'' =
      js ''https://drive.google.com'' @ js ''/file/d/'' @ js ''1AbC'' @ js ''/view?id=zz''"
    and n1: "js ''1AbC'' \<noteq> []" and s1: "0x2F \<notin> set (js ''1AbC'')"
    and r1: "hd (js ''/view?id=zz'') = 0x2F"
    by (simp_all add: js_def)
  have l1: "list_all
      (\<lambda>j. file_d_at (drop j (js ''https://drive.google.com/file/d/1AbC/view?id=zz'')) = None)
      [0..<length (js ''https://drive.google.com'')]"
    by code_simp
  have l2: "list_all
      (\<lambda>j. file_d_at (drop j (js ''https://drive.google.com/open?id=1AbC&usp=sharing'')) = None)
      [0..<Suc (length (js ''https://drive.google.com/open?id=1AbC&usp=sharing''))]"
    by code_simp
  have d2: "js ''https://drive.google.com/open?id=1AbC&usp=sharing'' =
      js ''https://drive.google.com/open'' @ 0x3F # js ''id='' @ js ''1AbC'' @ js ''&usp=sharing''"
    and s2: "0x26 \<notin> set (js ''1AbC'')" and r2: "hd (js ''&usp=sharing'') = 0x26"
    by (simp_all add: js_def)
  have l3: "list_all
      (\<lambda>j. id_param_at (drop j (js ''https://drive.google.com/open?id=1AbC&usp=sharing'')) = None)
      [0..<length (js ''https://drive.google.com/open'')]"
    by code_simp
  have c1: "getGoogleDriveDownloadUrl (js ''https://drive.google.com/file/d/1AbC/view?id=zz'') =
      js ''https://drive.google.com/uc?export=download&id='' @ js ''1AbC''"
    by (rule mp[OF conjunct1[OF getGoogleDriveDownloadUrl_direct_download[of
          "js ''https://drive.google.com/file/d/1AbC/view?id=zz''" "js ''https://drive.google.com''"
          "js ''1AbC''" "js ''/view?id=zz''"]]])
       (intro conjI d1 n1 s1 disjI2 r1 l1[folded all_less_upt])
  have c2: "getGoogleDriveDownloadUrl (js ''https://drive.google.com/open?id=1AbC&usp=sharing'') =
      js ''https://drive.google.com/uc?export=download&id='' @ js ''1AbC''"
    by (rule mp[OF conjunct2[OF getGoogleDriveDownloadUrl_direct_download[of
          "js ''https://drive.google.com/open?id=1AbC&usp=sharing''"
          "js ''https://drive.google.com/open''" _ "js ''&usp=sharing''" "0x3F" "js ''1AbC''"]]])
       (intro conjI l2[folded all_le_upt] d2 disjI1 refl n1 s2 disjI2 r2 l3[folded all_less_upt])
  show ?thesis
    by (intro conjI d1 n1 s1 r1 l1 c1[unfolded e] l2 d2 s2 r2 l3 c2[unfolded e])
qed

text \<open>
  Claim C9. A URL that matches the path pattern at no position and the query-parameter
  pattern at no position is returned unchanged. The transformer is a total function: it has
  a value on every string.
\<close>

theorem getGoogleDriveDownloadUrl_unchanged:
  "(\<forall>j\<le>length url. file_d_at (drop j url) = None) \<Longrightarrow>
   (\<forall>j\<le>length url. id_param_at (drop j url) = None) \<Longrightarrow>
   getGoogleDriveDownloadUrl url = url"
proof -
  assume "\<forall>j\<le>length url. file_d_at (drop j url) = None"
  then have 1: "search file_d_at url = None" by (simp add: search_None_iff)
  assume "\<forall>j\<le>length url. id_param_at (drop j url) = None"
  then have 2: "search id_param_at url = None" by (simp add: search_None_iff)
  from 1 2 show ?thesis by (simp add: getGoogleDriveDownloadUrl_def)
qed

theorem getGoogleDriveDownloadUrl_unchanged_witness:
  "list_all (\<lambda>j. file_d_at (drop j (js ''https://example.org/docs/menu.pdf?uid=7'')) = None)
     [0..<Suc (length (js ''https://example.org/docs/menu.pdf?uid=7''))] \<and>
   list_all (\<lambda>j. id_param_at (drop j (js ''https://example.org/docs/menu.pdf?uid=7'')) = None)
     [0..<Suc (length (js ''https://example.org/docs/menu.pdf?uid=7''))] \<and>
   getGoogleDriveDownloadUrl (js ''https://example.org/docs/menu.pdf?uid=7'') =
     js ''https://example.org/docs/menu.pdf?uid=7''"
proof -
  have p1: "list_all
      (\<lambda>j. file_d_at (drop j (js ''https://example.org/docs/menu.pdf?uid=7'')) = None)
      [0..<Suc (length (js ''https://example.org/docs/menu.pdf?uid=7''))]"
    by code_simp
  have p2: "list_all
      (\<lambda>j. id_param_at (drop j (js ''https://example.org/docs/menu.pdf?uid=7'')) = None)
      [0..<Suc (length (js ''https://example.org/docs/menu.pdf?uid=7''))]"
    by code_simp
  show ?thesis
    by (intro conjI p1 p2
        getGoogleDriveDownloadUrl_unchanged[OF p1[folded all_le_upt] p2[folded all_le_upt]])
qed

section \<open>Filename sanitisation\<close>

lemma underscore_plain: "\<not> is_space 0x5F" "\<not> disallowed 0x5F"
  by (simp_all add: is_space_def disallowed_def)

lemma collapse_ws_no_space: "c \<in> set (collapse_ws s) \<Longrightarrow> \<not> is_space c"
  by (induction s rule: collapse_ws.induct) (auto simp: underscore_plain split: if_splits)

lemma collapse_ws_chars: "c \<in> set (collapse_ws s) \<Longrightarrow> c = 0x5F \<or> c \<in> set s"
proof (induction s rule: collapse_ws.induct)
  case 1
  then show ?case by simp
next
  case (2 d ds)
  show ?case
  proof (cases "is_space d")
    case True
    with "2.prems" have "c = 0x5F \<or> c \<in> set (collapse_ws (dropWhile is_space ds))" by simp
    with "2.IH"(1)[OF True] have "c = 0x5F \<or> c \<in> set (dropWhile is_space ds)" by blast
    then show ?thesis by (auto dest: set_dropWhileD)
  next
    case False
    with "2.prems" "2.IH"(2)[OF False] show ?thesis by auto
  qed
qed

lemma collapse_ws_id: "\<forall>c\<in>set s. \<not> is_space c \<Longrightarrow> collapse_ws s = s"
  by (induction s) auto

lemma sanitizeFilename_chars:
  assumes "c \<in> set (sanitizeFilename t)"
  shows "\<not> disallowed c \<and> \<not> is_space c"
proof -
  from assms have m: "c \<in> set (collapse_ws (filter (\<lambda>c. \<not> disallowed c) t))"
    unfolding sanitizeFilename_def by (rule in_set_takeD)
  then have "\<not> is_space c" by (rule collapse_ws_no_space)
  moreover from m have "c = 0x5F \<or> c \<in> set (filter (\<lambda>c. \<not> disallowed c) t)"
    by (rule collapse_ws_chars)
  then have "\<not> disallowed c" by (auto simp: underscore_plain)
  ultimately show ?thesis by simp
qed

lemma sanitizeFilename_length: "length (sanitizeFilename t) \<le> 100"
  by (simp add: sanitizeFilename_def)

lemma sanitizeFilename_fixed:
  assumes "\<forall>c\<in>set s. \<not> disallowed c \<and> \<not> is_space c" "length s \<le> 100"
  shows "sanitizeFilename s = s"
proof -
  from assms(1) have "filter (\<lambda>c. \<not> disallowed c) s = s" by (simp add: filter_id_conv)
  moreover from assms(1) have "collapse_ws s = s" by (simp add: collapse_ws_id)
  ultimately show ?thesis using assms(2) by (simp add: sanitizeFilename_def)
qed

text \<open>
  Claim C2. For every title, sanitising twice gives what sanitising once gives; the result
  holds none of the code units \<open>< > : " / \ | ? *\<close>, holds no white space (a code unit
  of the class \<open>\s\<close>), and is at most 100 code units long.
\<close>

theorem sanitizeFilename_idempotent_clean:
  "sanitizeFilename (sanitizeFilename t) = sanitizeFilename t \<and>
   (\<forall>c\<in>set (sanitizeFilename t). \<not> disallowed c \<and> \<not> is_space c) \<and>
   length (sanitizeFilename t) \<le> 100"
proof (intro conjI)
  show 1: "\<forall>c\<in>set (sanitizeFilename t). \<not> disallowed c \<and> \<not> is_space c"
    using sanitizeFilename_chars by blast
  show 2: "length (sanitizeFilename t) \<le> 100" by (rule sanitizeFilename_length)
  from 1 2 show "sanitizeFilename (sanitizeFilename t) = sanitizeFilename t"
    by (rule sanitizeFilename_fixed)
qed

theorem sanitizeFilename_idempotent_clean_witness:
  "sanitizeFilename (js ''Kamaya: 2024/05   news?'') = js ''Kamaya_202405_news'' \<and>
   sanitizeFilename (sanitizeFilename (js ''Kamaya: 2024/05   news?'')) =
     sanitizeFilename (js ''Kamaya: 2024/05   news?'') \<and>
   list_all (\<lambda>c. \<not> disallowed c \<and> \<not> is_space c)
     (sanitizeFilename (js ''Kamaya: 2024/05   news?'')) \<and>
   length (sanitizeFilename (js ''Kamaya: 2024/05   news?'')) \<le> 100"
proof -
  have e: "sanitizeFilename (js ''Kamaya: 2024/05   news?'') = js ''Kamaya_202405_news''"
    by code_simp
  show ?thesis
    unfolding list_all_iff
    by (rule conjI[OF e sanitizeFilename_idempotent_clean[of "js ''Kamaya: 2024/05   news?''"]])
qed

section \<open>The extract handler\<close>

lemma POST_extract_download:
  assumes "pdfUrl req = Some url" "url \<noteq> []" "title req = Some ttl"
    and "files env (sanitizeFilename ttl @ js ''.pdf'') = None \<or>
         files env (sanitizeFilename ttl @ js ''.pdf'') = Some Unreadable"
  shows "POST_extract env (Some req) =
         download env url (pdfType req) ttl (sanitizeFilename ttl @ js ''.pdf'')"
  using assms by (auto simp: POST_extract_def Let_def)

text \<open>
  Claim C6. Take a request whose PDF is not answered from the cache, so that the download
  URL is fetched. If the answer is not OK, the handler returns a skip (\<open>success: false,
  skipped: true\<close>) with the status in the error. If the answer is an HTML page that holds
  one of the access-denied phrases, it returns a skip. If the HTML page holds no such phrase
  and no confirm link, it returns a skip. In these three cases the download URL is the only
  URL fetched, once, and the download directory is unchanged. If the page holds a confirm
  link and following it gives no OK answer or no PDF, the handler returns a skip as well,
  having fetched the download URL once and the confirm URL once.
\<close>

theorem POST_extract_html_skipped:
  assumes "pdfUrl req = Some url" "url \<noteq> []" "title req = Some ttl"
    and "files env (sanitizeFilename ttl @ js ''.pdf'') = None \<or>
         files env (sanitizeFilename ttl @ js ''.pdf'') = Some Unreadable"
    and "downloadUrl =
           (if pdfType req = Some (js ''google-drive'') \<or> includes_str url (js ''drive.google.com'')
            then getGoogleDriveDownloadUrl url else url)"
    and "net env 0 downloadUrl = Some response"
    and "contentType = (case content_type response of None \<Rightarrow> [] | Some t \<Rightarrow> t)"
  shows "(\<not> ok response \<longrightarrow>
            POST_extract env (Some req) =
              \<lparr>result = Skipped (DownloadFailed (status response)), files_after = files env,
               fetched = [downloadUrl]\<rparr>)
       \<and> (ok response \<and> includes_str contentType (js ''text/html'') \<and>
          text_body response = Some html \<and> access_denied html \<longrightarrow>
            POST_extract env (Some req) =
              \<lparr>result = Skipped AccessDenied, files_after = files env,
               fetched = [downloadUrl]\<rparr>)
       \<and> (ok response \<and> includes_str contentType (js ''text/html'') \<and>
          text_body response = Some html \<and> \<not> access_denied html \<and>
          search confirm_at html = None \<longrightarrow>
            POST_extract env (Some req) =
              \<lparr>result = Skipped HtmlInsteadOfPdf, files_after = files env,
               fetched = [downloadUrl]\<rparr>)
       \<and> (ok response \<and> includes_str contentType (js ''text/html'') \<and>
          text_body response = Some html \<and> \<not> access_denied html \<and>
          search confirm_at html = Some href \<and>
          confirmUrl = (if startsWith (replace_amp href) (js ''http'') then replace_amp href
                        else js ''https://drive.google.com'' @ replace_amp href) \<and>
          net env 1 confirmUrl = Some confirmResponse \<and>
          confirmContentType =
            (case content_type confirmResponse of None \<Rightarrow> [] | Some t \<Rightarrow> t) \<and>
          (\<not> ok confirmResponse \<or>
           \<not> (includes_str confirmContentType (js ''application/pdf'') \<or>
              includes_str confirmContentType (js ''octet-stream''))) \<longrightarrow>
            POST_extract env (Some req) =
              \<lparr>result = Skipped HtmlInsteadOfPdf, files_after = files env,
               fetched = [downloadUrl, confirmUrl]\<rparr>)"
proof -
  have p: "POST_extract env (Some req) =
         download env url (pdfType req) ttl (sanitizeFilename ttl @ js ''.pdf'')"
    using assms(1-4) by (rule POST_extract_download)
  show ?thesis
    unfolding p using assms(5-7)
    by (auto simp: download_def follow_confirm_def skip_def Let_def)
qed

theorem POST_extract_html_skipped_witness:
  "POST_extract (sample_env not_found not_found) (Some sample_request) =
     \<lparr>result = Skipped (DownloadFailed 404), files_after = files (sample_env not_found not_found),
        fetched = [(js ''https://example.org/a.pdf'')]\<rparr> \<and>
   access_denied (js ''<html>Sign in</html>'') \<and>
   POST_extract (sample_env (html_page (js ''<html>Sign in</html>'')) not_found) (Some sample_request) =
     \<lparr>result = Skipped AccessDenied, files_after = files (sample_env (html_page (js ''<html>Sign in</html>'')) not_found),
        fetched = [(js ''https://example.org/a.pdf'')]\<rparr> \<and>
   search confirm_at (js ''<html>Quota exceeded</html>'') = None \<and>
   POST_extract (sample_env (html_page (js ''<html>Quota exceeded</html>'')) not_found) (Some sample_request) =
     \<lparr>result = Skipped HtmlInsteadOfPdf, files_after = files (sample_env (html_page (js ''<html>Quota exceeded</html>'')) not_found),
        fetched = [(js ''https://example.org/a.pdf'')]\<rparr> \<and>
   search confirm_at confirm_page = Some (js ''/uc?export=download&amp;confirm=t&amp;id=1'') \<and>
   POST_extract (sample_env (html_page confirm_page) not_found) (Some sample_request) =
     \<lparr>result = Skipped HtmlInsteadOfPdf, files_after = files (sample_env (html_page confirm_page) not_found),
        fetched = [(js ''https://example.org/a.pdf''),
          js ''https://drive.google.com/uc?export=download&confirm=t&id=1'']\<rparr>"
proof -
  have u: "(if pdfType sample_request = Some (js ''google-drive'') \<or>
          includes_str (js ''https://example.org/a.pdf'') (js ''drive.google.com'')
       then getGoogleDriveDownloadUrl (js ''https://example.org/a.pdf'') else (js ''https://example.org/a.pdf'')) = (js ''https://example.org/a.pdf'')"
    by code_simp
  have a: "pdfUrl sample_request = Some (js ''https://example.org/a.pdf'')" "(js ''https://example.org/a.pdf'') \<noteq> []" "title sample_request = Some (js ''a'')"
    by (simp_all add: js_def sample_request_def)
  have f: "files (sample_env r0 r1) (sanitizeFilename (js ''a'') @ js ''.pdf'') = None" for r0 r1
    by (simp add: sample_env_def)
  have n0: "net (sample_env r0 r1) 0 v = Some r0" and n1: "net (sample_env r0 r1) 1 v = Some r1"
    for r0 r1 v
    by (simp_all add: sample_env_def)
  have k1: "\<not> ok not_found" "status not_found = 404" by (simp_all add: not_found_def)
  have k: "ok (html_page h)" "text_body (html_page h) = Some h"
    "includes_str (case content_type (html_page h) of None \<Rightarrow> [] | Some t \<Rightarrow> t) (js ''text/html'')" for h
    by (simp_all add: html_page_def) code_simp
  have d2: "access_denied (js ''<html>Sign in</html>'')" by code_simp
  have d3: "\<not> access_denied (js ''<html>Quota exceeded</html>'')" by code_simp
  have s3: "search confirm_at (js ''<html>Quota exceeded</html>'') = None" by code_simp
  have d4: "\<not> access_denied confirm_page" by code_simp
  have s4: "search confirm_at confirm_page = Some (js ''/uc?export=download&amp;confirm=t&amp;id=1'')"
    by code_simp
  have c4: "(if startsWith (replace_amp (js ''/uc?export=download&amp;confirm=t&amp;id=1'')) (js ''http'') then replace_amp (js ''/uc?export=download&amp;confirm=t&amp;id=1'')
       else js ''https://drive.google.com'' @ replace_amp (js ''/uc?export=download&amp;confirm=t&amp;id=1'')) = js ''https://drive.google.com/uc?export=download&confirm=t&id=1''"
    by code_simp
  have 1: "POST_extract (sample_env not_found not_found) (Some sample_request) =
     \<lparr>result = Skipped (DownloadFailed 404), files_after = files (sample_env not_found not_found),
        fetched = [(js ''https://example.org/a.pdf'')]\<rparr>"
    using POST_extract_html_skipped[of sample_request
      "(js ''https://example.org/a.pdf'')" "js ''a''" "(sample_env not_found not_found)"
      "(if pdfType sample_request = Some (js ''google-drive'') \<or>
          includes_str (js ''https://example.org/a.pdf'') (js ''drive.google.com'')
       then getGoogleDriveDownloadUrl (js ''https://example.org/a.pdf'') else (js ''https://example.org/a.pdf''))"
      "not_found" "(case content_type not_found of None \<Rightarrow> [] | Some t \<Rightarrow> t)" "[]"]
      a f n0 k1
    by (simp add: u)
  have 2: "POST_extract (sample_env (html_page (js ''<html>Sign in</html>'')) not_found) (Some sample_request) =
     \<lparr>result = Skipped AccessDenied, files_after = files (sample_env (html_page (js ''<html>Sign in</html>'')) not_found),
        fetched = [(js ''https://example.org/a.pdf'')]\<rparr>"
    using POST_extract_html_skipped[of sample_request
      "(js ''https://example.org/a.pdf'')" "js ''a''" "(sample_env (html_page (js ''<html>Sign in</html>'')) not_found)"
      "(if pdfType sample_request = Some (js ''google-drive'') \<or>
          includes_str (js ''https://example.org/a.pdf'') (js ''drive.google.com'')
       then getGoogleDriveDownloadUrl (js ''https://example.org/a.pdf'') else (js ''https://example.org/a.pdf''))"
      "(html_page (js ''<html>Sign in</html>''))" "(case content_type (html_page (js ''<html>Sign in</html>'')) of None \<Rightarrow> [] | Some t \<Rightarrow> t)" "(js ''<html>Sign in</html>'')"]
      a f n0 k d2
    by (simp add: u)
  have 3: "POST_extract (sample_env (html_page (js ''<html>Quota exceeded</html>'')) not_found) (Some sample_request) =
     \<lparr>result = Skipped HtmlInsteadOfPdf, files_after = files (sample_env (html_page (js ''<html>Quota exceeded</html>'')) not_found),
        fetched = [(js ''https://example.org/a.pdf'')]\<rparr>"
    using POST_extract_html_skipped[of sample_request
      "(js ''https://example.org/a.pdf'')" "js ''a''" "(sample_env (html_page (js ''<html>Quota exceeded</html>'')) not_found)"
      "(if pdfType sample_request = Some (js ''google-drive'') \<or>
          includes_str (js ''https://example.org/a.pdf'') (js ''drive.google.com'')
       then getGoogleDriveDownloadUrl (js ''https://example.org/a.pdf'') else (js ''https://example.org/a.pdf''))"
      "(html_page (js ''<html>Quota exceeded</html>''))" "(case content_type (html_page (js ''<html>Quota exceeded</html>'')) of None \<Rightarrow> [] | Some t \<Rightarrow> t)" "(js ''<html>Quota exceeded</html>'')"]
      a f n0 k d3 s3
    by (simp add: u)
  have 4: "POST_extract (sample_env (html_page confirm_page) not_found) (Some sample_request) =
     \<lparr>result = Skipped HtmlInsteadOfPdf, files_after = files (sample_env (html_page confirm_page) not_found),
        fetched = [(js ''https://example.org/a.pdf''),
          js ''https://drive.google.com/uc?export=download&confirm=t&id=1'']\<rparr>"
    using POST_extract_html_skipped[of sample_request
      "(js ''https://example.org/a.pdf'')" "js ''a''" "(sample_env (html_page confirm_page) not_found)"
      "(if pdfType sample_request = Some (js ''google-drive'') \<or>
          includes_str (js ''https://example.org/a.pdf'') (js ''drive.google.com'')
       then getGoogleDriveDownloadUrl (js ''https://example.org/a.pdf'') else (js ''https://example.org/a.pdf''))"
      "(html_page confirm_page)" "(case content_type (html_page confirm_page) of None \<Rightarrow> [] | Some t \<Rightarrow> t)" "confirm_page"
      "(js ''/uc?export=download&amp;confirm=t&amp;id=1'')"
      "(if startsWith (replace_amp (js ''/uc?export=download&amp;confirm=t&amp;id=1'')) (js ''http'') then replace_amp (js ''/uc?export=download&amp;confirm=t&amp;id=1'')
       else js ''https://drive.google.com'' @ replace_amp (js ''/uc?export=download&amp;confirm=t&amp;id=1''))"
      not_found "(case content_type not_found of None \<Rightarrow> [] | Some t \<Rightarrow> t)"]
      a f n0 n1 k k1 d4 s4
    by (simp add: u c4)
  show ?thesis by (intro conjI 1 d2 2 s3 3 s4 4)
qed


text \<open>
  Claim C10. \<open>sanitizeFilename\<close> is not injective: two titles that differ in a disallowed
  character, in the kind of white space, or after the 100th code unit have the same file
  name. Hence a PDF saved for the title \<open>a:b\<close> is served from the cache, with
  \<open>cached: true\<close> and without any fetch, to a later request for the title \<open>ab\<close>.
\<close>

theorem sanitizeFilename_not_injective:
  "(\<exists>t1 t2. t1 \<noteq> t2 \<and> sanitizeFilename t1 = sanitizeFilename t2) \<and>
   js ''a:b'' \<noteq> js ''ab'' \<and> sanitizeFilename (js ''a:b'') = sanitizeFilename (js ''ab'') \<and>
   js ''a b'' \<noteq> [0x61, 0x9, 0x62] \<and>
   sanitizeFilename (js ''a b'') = sanitizeFilename [0x61, 0x9, 0x62] \<and>
   replicate 100 0x61 @ js ''x'' \<noteq> replicate 100 0x61 @ js ''y'' \<and>
   sanitizeFilename (replicate 100 0x61 @ js ''x'') =
     sanitizeFilename (replicate 100 0x61 @ js ''y'') \<and>
   result (POST_extract (sample_env (pdf_file [0x25, 0x50, 0x44, 0x46]) not_found)
             (Some (sample_request\<lparr>title := Some (js ''a:b'')\<rparr>))) =
     Pdf (js ''a:b'') [0x25, 0x50, 0x44, 0x46] (js ''ab.pdf'') False \<and>
   POST_extract
     ((sample_env not_found not_found)
        \<lparr>files := files_after
           (POST_extract (sample_env (pdf_file [0x25, 0x50, 0x44, 0x46]) not_found)
              (Some (sample_request\<lparr>title := Some (js ''a:b'')\<rparr>)))\<rparr>)
     (Some (sample_request\<lparr>title := Some (js ''ab'')\<rparr>)) =
     \<lparr>result = Pdf (js ''ab'') [0x25, 0x50, 0x44, 0x46] (js ''ab.pdf'') True,
      files_after = files_after
           (POST_extract (sample_env (pdf_file [0x25, 0x50, 0x44, 0x46]) not_found)
              (Some (sample_request\<lparr>title := Some (js ''a:b'')\<rparr>))),
      fetched = []\<rparr>"
proof -
  have 1: "js ''a:b'' \<noteq> js ''ab''" by (simp add: js_def)
  have 2: "sanitizeFilename (js ''a:b'') = sanitizeFilename (js ''ab'')" by code_simp
  have 3: "js ''a b'' \<noteq> [0x61, 0x9, 0x62]" by (simp add: js_def)
  have 4: "sanitizeFilename (js ''a b'') = sanitizeFilename [0x61, 0x9, 0x62]" by code_simp
  have 5: "replicate 100 0x61 @ js ''x'' \<noteq> replicate 100 (0x61 :: code_unit) @ js ''y''"
    by (simp add: js_def)
  have "take 100 (replicate 100 (0x61 :: code_unit) @ z) = replicate 100 0x61" for z
    by simp
  moreover have "collapse_ws (filter (\<lambda>c. \<not> disallowed c) (replicate 100 0x61 @ js [z])) =
      replicate 100 0x61 @ js [z]" if "z = CHR ''x'' \<or> z = CHR ''y''" for z
  proof -
    have "\<forall>c\<in>set (replicate 100 0x61 @ js [z]). \<not> disallowed c \<and> \<not> is_space c"
      using that by (auto simp: js_def disallowed_def is_space_def)
    then show ?thesis by (simp add: filter_id_conv collapse_ws_id)
  qed
  ultimately have 6: "sanitizeFilename (replicate 100 0x61 @ js ''x'') =
     sanitizeFilename (replicate 100 0x61 @ js ''y'')"
    by (simp add: sanitizeFilename_def)
  have f: "sanitizeFilename (js ''a:b'') @ js ''.pdf'' = js ''ab.pdf''"
    "sanitizeFilename (js ''ab'') @ js ''.pdf'' = js ''ab.pdf''"
    by code_simp+
  have i: "\<not> includes_str (js ''https://example.org/a.pdf'') (js ''drive.google.com'')"
    "\<not> includes_str (js ''application/pdf'') (js ''text/html'')"
    by code_simp+
  have u0: "js ''https://example.org/a.pdf'' \<noteq> []" by (simp add: js_def)
  have 7: "POST_extract (sample_env (pdf_file [0x25, 0x50, 0x44, 0x46]) not_found)
             (Some (sample_request\<lparr>title := Some (js ''a:b'')\<rparr>)) =
     \<lparr>result = Pdf (js ''a:b'') [0x25, 0x50, 0x44, 0x46] (js ''ab.pdf'') False,
      files_after = (\<lambda>f. None)(js ''ab.pdf'' := Some (Readable [0x25, 0x50, 0x44, 0x46])),
      fetched = [js ''https://example.org/a.pdf'']\<rparr>"
    by (simp add: POST_extract_def download_def savePdfAndRespond_def sample_env_def
        sample_request_def pdf_file_def f i u0 Let_def)
  have 8: "POST_extract
     ((sample_env not_found not_found)
        \<lparr>files := (\<lambda>f. None)(js ''ab.pdf'' := Some (Readable [0x25, 0x50, 0x44, 0x46]))\<rparr>)
     (Some (sample_request\<lparr>title := Some (js ''ab'')\<rparr>)) =
     \<lparr>result = Pdf (js ''ab'') [0x25, 0x50, 0x44, 0x46] (js ''ab.pdf'') True,
      files_after = (\<lambda>f. None)(js ''ab.pdf'' := Some (Readable [0x25, 0x50, 0x44, 0x46])),
      fetched = []\<rparr>"
    by (simp add: POST_extract_def sample_env_def sample_request_def f u0 Let_def)
  from 1 2 have 0: "\<exists>t1 t2. t1 \<noteq> t2 \<and> sanitizeFilename t1 = sanitizeFilename t2" by blast
  show ?thesis
    unfolding 7 by (intro conjI 0 1 2 3 4 5 6) (simp_all add: 8)
qed

section \<open>The analyze handler\<close>

lemma braces_at_Some_iff:
  "braces_at s \<noteq> None \<longleftrightarrow> (\<exists>mid post. s = 0x7B # mid @ 0x7D # post)"
proof
  assume "braces_at s \<noteq> None"
  then obtain cs where s: "s = 0x7B # cs" and "0x7D \<in> set cs"
    by (auto simp: braces_at_def split: list.splits if_splits)
  then obtain mid post where "cs = mid @ 0x7D # post" by (meson split_list)
  with s show "\<exists>mid post. s = 0x7B # mid @ 0x7D # post" by blast
next
  assume "\<exists>mid post. s = 0x7B # mid @ 0x7D # post"
  then show "braces_at s \<noteq> None" by (auto simp: braces_at_def)
qed

lemma search_braces_None_iff:
  "search braces_at t = None \<longleftrightarrow> \<not> (\<exists>pre mid post. t = pre @ 0x7B # mid @ 0x7D # post)"
proof
  assume n: "search braces_at t = None"
  show "\<not> (\<exists>pre mid post. t = pre @ 0x7B # mid @ 0x7D # post)"
  proof
    assume "\<exists>pre mid post. t = pre @ 0x7B # mid @ 0x7D # post"
    then obtain pre mid post where t: "t = pre @ 0x7B # mid @ 0x7D # post" by blast
    have "length pre \<le> length t" using t by simp
    with n have "braces_at (drop (length pre) t) = None"
      unfolding search_None_iff by blast
    moreover have "drop (length pre) t = 0x7B # mid @ 0x7D # post" using t by simp
    ultimately show False using braces_at_Some_iff[of "0x7B # mid @ 0x7D # post"] by auto
  qed
next
  assume a: "\<not> (\<exists>pre mid post. t = pre @ 0x7B # mid @ 0x7D # post)"
  show "search braces_at t = None"
    unfolding search_None_iff
  proof (intro allI impI)
    fix k assume "k \<le> length t"
    show "braces_at (drop k t) = None"
    proof (rule ccontr)
      assume "braces_at (drop k t) \<noteq> None"
      then obtain mid post where "drop k t = 0x7B # mid @ 0x7D # post"
        unfolding braces_at_Some_iff by blast
      then have "t = take k t @ 0x7B # mid @ 0x7D # post"
        by (metis append_take_drop_id)
      with a show False by blast
    qed
  qed
qed

lemma braces_at_hit:
  assumes "0x7D \<notin> set post"
  shows "braces_at (0x7B # mid @ 0x7D # post) = Some (0x7B # mid @ [0x7D])"
proof -
  have "dropWhile (\<lambda>d. d \<noteq> 0x7D) (rev post @ 0x7D # rev mid) = 0x7D # rev mid"
    using assms by (auto simp: dropWhile_append3)
  then show ?thesis by (simp add: braces_at_def)
qed

lemma search_braces_hit:
  assumes "0x7B \<notin> set pre" "0x7D \<notin> set post"
  shows "search braces_at (pre @ 0x7B # mid @ 0x7D # post) = Some (0x7B # mid @ [0x7D])"
proof (rule search_leftmost)
  show "braces_at (0x7B # mid @ 0x7D # post) = Some (0x7B # mid @ [0x7D])"
    using assms(2) by (rule braces_at_hit)
  show "\<forall>j<length pre. braces_at (drop j (pre @ 0x7B # mid @ 0x7D # post)) = None"
  proof (intro allI impI)
    fix j assume j: "j < length pre"
    then have "drop j (pre @ 0x7B # mid @ 0x7D # post) =
        pre ! j # drop (Suc j) pre @ 0x7B # mid @ 0x7D # post"
      by (simp add: Cons_nth_drop_Suc)
    moreover have "pre ! j \<noteq> 0x7B" using assms(1) j by (metis nth_mem)
    ultimately show "braces_at (drop j (pre @ 0x7B # mid @ 0x7D # post)) = None"
      by (simp add: braces_at_def)
  qed
qed

text \<open>
  Claim C5. For a request that carries a PDF and a key and a reply text of the model: the
  handler answers with the failure to extract (\<open>success: false\<close> and an error message, as
  an ordinary return) exactly when the reply holds no \<open>{\<close> with a \<open>}\<close> somewhere after
  it. Otherwise the text handed to \<open>JSON.parse\<close> is the match of the pattern: it starts at
  the first \<open>{\<close> of the reply and, the pattern being greedy, ends at the last \<open>}\<close>.
\<close>

theorem POST_analyze_extraction:
  assumes "pdf req = Some p" "pdfBase64 p \<noteq> []" "apiKey req = Some k" "k \<noteq> []"
    and "gen k p = Some responseText"
  shows "(POST_analyze gen parse (Some req) = ExtractFailed \<longleftrightarrow>
            \<not> (\<exists>pre mid post. responseText = pre @ 0x7B # mid @ 0x7D # post))
       \<and> (responseText = pre @ 0x7B # mid @ 0x7D # post \<and> 0x7B \<notin> set pre \<and> 0x7D \<notin> set post \<longrightarrow>
            search braces_at responseText = Some (0x7B # mid @ [0x7D]) \<and>
            POST_analyze gen parse (Some req) =
              (case parse (0x7B # mid @ [0x7D]) of
                 None \<Rightarrow> ServerError
               | Some JNull \<Rightarrow> ServerError
               | Some parsed \<Rightarrow>
                   Analyzed (pdf_title p)
                     (or_empty_array parsed (js ''ingredients''))
                     (or_empty_array parsed (js ''dishes''))
                     (or_empty_array parsed (js ''cookingMethods''))
                     (or_empty_array parsed (js ''seasons''))))"
proof (intro conjI impI)
  have r: "POST_analyze gen parse (Some req) =
      (case search braces_at responseText of
         None \<Rightarrow> ExtractFailed
       | Some jsonMatch \<Rightarrow>
           (case parse jsonMatch of
              None \<Rightarrow> ServerError
            | Some JNull \<Rightarrow> ServerError
            | Some parsed \<Rightarrow>
                Analyzed (pdf_title p)
                  (or_empty_array parsed (js ''ingredients''))
                  (or_empty_array parsed (js ''dishes''))
                  (or_empty_array parsed (js ''cookingMethods''))
                  (or_empty_array parsed (js ''seasons''))))"
    using assms by (simp add: POST_analyze_def)
  have "POST_analyze gen parse (Some req) = ExtractFailed \<longleftrightarrow>
      search braces_at responseText = None"
    unfolding r by (auto split: option.splits json.splits)
  then show "POST_analyze gen parse (Some req) = ExtractFailed \<longleftrightarrow>
      \<not> (\<exists>pre mid post. responseText = pre @ 0x7B # mid @ 0x7D # post)"
    by (simp only: search_braces_None_iff)
  assume a: "responseText = pre @ 0x7B # mid @ 0x7D # post \<and> 0x7B \<notin> set pre \<and> 0x7D \<notin> set post"
  then have "search braces_at (pre @ 0x7B # mid @ 0x7D # post) = Some (0x7B # mid @ [0x7D])"
    by (intro search_braces_hit) auto
  with a show s: "search braces_at responseText = Some (0x7B # mid @ [0x7D])" by simp
  show "POST_analyze gen parse (Some req) =
              (case parse (0x7B # mid @ [0x7D]) of
                 None \<Rightarrow> ServerError
               | Some JNull \<Rightarrow> ServerError
               | Some parsed \<Rightarrow>
                   Analyzed (pdf_title p)
                     (or_empty_array parsed (js ''ingredients''))
                     (or_empty_array parsed (js ''dishes''))
                     (or_empty_array parsed (js ''cookingMethods''))
                     (or_empty_array parsed (js ''seasons'')))"
    unfolding r s by simp
qed


theorem POST_analyze_extraction_witness:
  "POST_analyze (\<lambda>k p. Some (js ''Sorry, no data.'')) sample_parse (Some sample_analyze_request) =
     ExtractFailed \<and>
   search braces_at (js ''Here: {a} and {b}. Bye'') = Some (js ''{a} and {b}'') \<and>
   POST_analyze (\<lambda>k p. Some (js ''Here: {a} and {b}. Bye'')) sample_parse
       (Some sample_analyze_request) =
     Analyzed (js ''May issue'') (JArr [JStr (js ''rice'')]) (JArr []) (JArr []) (JArr [])"
proof -
  have a: "pdf sample_analyze_request = Some sample_pdf" "pdfBase64 sample_pdf \<noteq> []"
    "apiKey sample_analyze_request = Some (js ''key'')" "js ''key'' \<noteq> []"
    by (simp_all add: sample_analyze_request_def sample_pdf_def js_def)
  have "search braces_at (js ''Sorry, no data.'') = None" by code_simp
  then have n: "\<not> (\<exists>pre mid post. js ''Sorry, no data.'' = pre @ 0x7B # mid @ 0x7D # post)"
    by (rule iffD1[OF search_braces_None_iff])
  have 1: "POST_analyze (\<lambda>k p. Some (js ''Sorry, no data.'')) sample_parse
      (Some sample_analyze_request) = ExtractFailed"
    using POST_analyze_extraction[of sample_analyze_request sample_pdf "js ''key''"
        "\<lambda>k p. Some (js ''Sorry, no data.'')" "js ''Sorry, no data.''" sample_parse, OF a refl]
    by (rule iffD2[OF conjunct1 n])
  have d: "js ''Here: {a} and {b}. Bye'' = js ''Here: '' @ 0x7B # js ''a} and {b'' @ 0x7D # js ''. Bye''"
    "0x7B \<notin> set (js ''Here: '')" "0x7D \<notin> set (js ''. Bye'')"
    by (simp_all add: js_def)
  have e: "0x7B # js ''a} and {b'' @ [0x7D] = js ''{a} and {b}''" by (simp add: js_def)
  have v: "(case sample_parse (js ''{a} and {b}'') of
             None \<Rightarrow> ServerError
           | Some JNull \<Rightarrow> ServerError
           | Some parsed \<Rightarrow>
               Analyzed (pdf_title sample_pdf)
                 (or_empty_array parsed (js ''ingredients''))
                 (or_empty_array parsed (js ''dishes''))
                 (or_empty_array parsed (js ''cookingMethods''))
                 (or_empty_array parsed (js ''seasons''))) =
      Analyzed (js ''May issue'') (JArr [JStr (js ''rice'')]) (JArr []) (JArr []) (JArr [])"
    by code_simp
  have 2: "search braces_at (js ''Here: {a} and {b}. Bye'') = Some (js ''{a} and {b}'') \<and>
      POST_analyze (\<lambda>k p. Some (js ''Here: {a} and {b}. Bye'')) sample_parse
        (Some sample_analyze_request) =
      Analyzed (js ''May issue'') (JArr [JStr (js ''rice'')]) (JArr []) (JArr []) (JArr [])"
    using mp[OF conjunct2[OF POST_analyze_extraction[of sample_analyze_request sample_pdf
        "js ''key''" "\<lambda>k p. Some (js ''Here: {a} and {b}. Bye'')" "js ''Here: {a} and {b}. Bye''"
        sample_parse "js ''Here: ''" "js ''a} and {b''" "js ''. Bye''", OF a refl]]
        conjI[OF d(1) conjI[OF d(2,3)]]]
    unfolding e v .
  show ?thesis by (rule conjI[OF 1 2])
qed

section \<open>The date of an article\<close>

lemma not_digit_marks: "\<not> is_digit 0x5E74" "\<not> is_digit 0x6708" "\<not> is_digit 0x65E5" "\<not> is_digit 0x53F7"
  by (simp_all add: is_digit_def)

lemma digits12_hit:
  assumes "length m = 1 \<or> length m = 2" "list_all is_digit m" "\<not> is_digit c"
  shows "digits12 (m @ c # rest) = Some (m, c # rest)"
proof -
  from assms(1) have "(\<exists>a. m = [a]) \<or> (\<exists>a b. m = [a, b])"
    by (auto simp: length_Suc_conv numeral_2_eq_2)
  then show ?thesis
    using assms(2,3) by (auto simp: digits12_def)
qed

lemma year_month_at_hit:
  assumes "length y = 4" "list_all is_digit y" "length m = 1 \<or> length m = 2" "list_all is_digit m"
  shows "year_month_at (y @ 0x5E74 # m @ 0x6708 # rest) = Some (y, m, rest)"
proof -
  have "digits12 (m @ 0x6708 # rest) = Some (m, 0x6708 # rest)"
    using assms(3,4) not_digit_marks(2) by (rule digits12_hit)
  then show ?thesis using assms(1,2) by (simp add: year_month_at_def)
qed

lemma date_at_hit:
  assumes "length y = 4" "list_all is_digit y" "length m = 1 \<or> length m = 2" "list_all is_digit m"
    "length d = 1 \<or> length d = 2" "list_all is_digit d"
  shows "date_at (y @ 0x5E74 # m @ 0x6708 # d @ 0x65E5 # post) = Some (y, m, d)"
proof -
  have "digits12 (d @ 0x65E5 # post) = Some (d, 0x65E5 # post)"
    using assms(5,6) not_digit_marks(3) by (rule digits12_hit)
  then show ?thesis
    using year_month_at_hit[OF assms(1-4), of "d @ 0x65E5 # post"] by (simp add: date_at_def)
qed

lemma issue_at_hit:
  assumes "length y = 4" "list_all is_digit y" "length m = 1 \<or> length m = 2" "list_all is_digit m"
  shows "issue_at (y @ 0x5E74 # m @ 0x6708 # 0x53F7 # post) = Some (y, m)"
  using year_month_at_hit[OF assms, of "0x53F7 # post"] by (simp add: issue_at_def)

lemma article_date_explicit:
  assumes "html = pre @ y @ 0x5E74 # m @ 0x6708 # d @ 0x65E5 # post"
    "length y = 4" "list_all is_digit y" "length m = 1 \<or> length m = 2" "list_all is_digit m"
    "length d = 1 \<or> length d = 2" "list_all is_digit d"
    "\<forall>j<length pre. date_at (drop j html) = None"
  shows "article_date html ttl = y @ js ''-'' @ padStart2 m @ js ''-'' @ padStart2 d"
proof -
  have "date_at (y @ 0x5E74 # m @ 0x6708 # d @ 0x65E5 # post) = Some (y, m, d)"
    using assms(2-7) by (rule date_at_hit)
  then have "search date_at (pre @ y @ 0x5E74 # m @ 0x6708 # d @ 0x65E5 # post) = Some (y, m, d)"
    using assms(8)[unfolded assms(1)] by (rule search_leftmost)
  then have s: "search date_at html = Some (y, m, d)" unfolding assms(1) .
  have "y \<noteq> []" using assms(2) by auto
  then show ?thesis
    unfolding article_date_def s by (simp add: Let_def split: option.splits)
qed

lemma article_date_issue:
  assumes "\<forall>j\<le>length html. date_at (drop j html) = None"
    "ttl = pre @ y @ 0x5E74 # m @ 0x6708 # 0x53F7 # post"
    "length y = 4" "list_all is_digit y" "length m = 1 \<or> length m = 2" "list_all is_digit m"
    "\<forall>j<length pre. issue_at (drop j ttl) = None"
  shows "article_date html ttl = y @ js ''-'' @ padStart2 m @ js ''-01''"
proof -
  have n: "search date_at html = None" using assms(1) by (simp add: search_None_iff)
  have "issue_at (y @ 0x5E74 # m @ 0x6708 # 0x53F7 # post) = Some (y, m)"
    using assms(3-6) by (rule issue_at_hit)
  then have "search issue_at (pre @ y @ 0x5E74 # m @ 0x6708 # 0x53F7 # post) = Some (y, m)"
    using assms(7)[unfolded assms(2)] by (rule search_leftmost)
  then have s: "search issue_at ttl = Some (y, m)" unfolding assms(2) .
  show ?thesis unfolding article_date_def n s by (simp add: Let_def)
qed

lemma article_date_none:
  assumes "\<forall>j\<le>length html. date_at (drop j html) = None"
    "\<forall>j\<le>length ttl. issue_at (drop j ttl) = None"
  shows "article_date html ttl = []"
proof -
  have n: "search date_at html = None" using assms(1) by (simp add: search_None_iff)
  have s: "search issue_at ttl = None" using assms(2) by (simp add: search_None_iff)
  show ?thesis unfolding article_date_def n s by simp
qed

text \<open>
  Claim C7. For a page that was fetched and whose title was read: if the HTML holds a date
  \<open>YYYY\<close> U+5E74 \<open>M\<close> U+6708 \<open>D\<close> U+65E5 (four digits, one or two digits, one or two
  digits), the date of the article is \<open>YYYY-MM-DD\<close> for the leftmost one, month and day
  padded with a zero to two digits; if the HTML holds none and the title holds an issue
  label \<open>YYYY\<close> U+5E74 \<open>M\<close> U+6708 U+53F7, the date is \<open>YYYY-MM-01\<close> for the leftmost
  one; if neither is there, the date is the empty string.
\<close>

theorem fetchArticleDetails_date_fallbacks:
  assumes "html \<noteq> []" "title_of html = Some ttl"
  shows "(html = pre @ y @ 0x5E74 # m @ 0x6708 # d @ 0x65E5 # post \<and>
          length y = 4 \<and> list_all is_digit y \<and> (length m = 1 \<or> length m = 2) \<and>
          list_all is_digit m \<and> (length d = 1 \<or> length d = 2) \<and> list_all is_digit d \<and>
          (\<forall>j<length pre. date_at (drop j html) = None) \<longrightarrow>
            fetchArticleDetails_date (Some html) title_of =
              y @ js ''-'' @ padStart2 m @ js ''-'' @ padStart2 d)
       \<and> ((\<forall>j\<le>length html. date_at (drop j html) = None) \<and>
          ttl = pre @ y @ 0x5E74 # m @ 0x6708 # 0x53F7 # post \<and>
          length y = 4 \<and> list_all is_digit y \<and> (length m = 1 \<or> length m = 2) \<and>
          list_all is_digit m \<and> (\<forall>j<length pre. issue_at (drop j ttl) = None) \<longrightarrow>
            fetchArticleDetails_date (Some html) title_of =
              y @ js ''-'' @ padStart2 m @ js ''-01'')
       \<and> ((\<forall>j\<le>length html. date_at (drop j html) = None) \<and>
          (\<forall>j\<le>length ttl. issue_at (drop j ttl) = None) \<longrightarrow>
            fetchArticleDetails_date (Some html) title_of = [])
       \<and> padStart2 [a] = [0x30, a] \<and> padStart2 [a, b] = [a, b]"
proof -
  have f: "fetchArticleDetails_date (Some html) title_of = article_date html ttl"
    using assms by (simp add: fetchArticleDetails_date_def)
  show ?thesis
    unfolding f
  proof (intro conjI impI; (elim conjE)?)
    show "padStart2 [a] = [0x30, a]" "padStart2 [a, b] = [a, b]"
      by (simp_all add: padStart2_def)
  qed (rule article_date_explicit article_date_issue article_date_none; assumption)+
qed


theorem fetchArticleDetails_date_fallbacks_witness:
  "fetchArticleDetails_date (Some (js ''<p>'' @ js ''2024'' @ 0x5E74 # js ''5'' @ 0x6708 # js ''7'' @ 0x65E5 # js ''</p>'')) (\<lambda>h. Some (js ''News'')) = js ''2024-05-07'' \<and>
   list_all (\<lambda>j. date_at (drop j (js ''<p>no date</p>'')) = None) [0..<Suc (length (js ''<p>no date</p>''))] \<and>
   fetchArticleDetails_date (Some (js ''<p>no date</p>''))
       (\<lambda>h. Some (js ''Kamaya '' @ js ''2024'' @ 0x5E74 # js ''12'' @ 0x6708 # 0x53F7 # js '' issue'')) =
     js ''2024-12-01'' \<and>
   list_all (\<lambda>j. issue_at (drop j (js ''News'')) = None) [0..<Suc (length (js ''News''))] \<and>
   fetchArticleDetails_date (Some (js ''<p>no date</p>'')) (\<lambda>h. Some (js ''News'')) = []"
proof -
  have ne: "js ''<p>'' @ js ''2024'' @ 0x5E74 # js ''5'' @ 0x6708 # js ''7'' @ 0x65E5 # js ''</p>'' \<noteq> []"
    "js ''<p>no date</p>'' \<noteq> []"
    by (simp_all add: js_def)
  have dg: "length (js ''2024'') = 4" "list_all is_digit (js ''2024'')"
    "length (js ''5'') = 1 \<or> length (js ''5'') = 2" "list_all is_digit (js ''5'')"
    "length (js ''7'') = 1 \<or> length (js ''7'') = 2" "list_all is_digit (js ''7'')"
    "length (js ''12'') = 1 \<or> length (js ''12'') = 2" "list_all is_digit (js ''12'')"
    by (simp_all add: js_def is_digit_def)
  have l1: "list_all (\<lambda>j. date_at (drop j (js ''<p>'' @ js ''2024'' @ 0x5E74 # js ''5'' @ 0x6708 # js ''7'' @ 0x65E5 # js ''</p>'')) = None) [0..<length (js ''<p>'')]"
    by code_simp
  have l2: "list_all (\<lambda>j. date_at (drop j (js ''<p>no date</p>'')) = None) [0..<Suc (length (js ''<p>no date</p>''))]"
    by code_simp
  have l3: "list_all (\<lambda>j. issue_at (drop j (js ''Kamaya '' @ js ''2024'' @ 0x5E74 # js ''12'' @ 0x6708 # 0x53F7 # js '' issue'')) = None) [0..<length (js ''Kamaya '')]"
    by code_simp
  have l4: "list_all (\<lambda>j. issue_at (drop j (js ''News'')) = None) [0..<Suc (length (js ''News''))]"
    by code_simp
  have e: "js ''2024'' @ js ''-'' @ padStart2 (js ''5'') @ js ''-'' @ padStart2 (js ''7'') =
      js ''2024-05-07''"
    "js ''2024'' @ js ''-'' @ padStart2 (js ''12'') @ js ''-01'' = js ''2024-12-01''"
    by code_simp+
  have 1: "fetchArticleDetails_date (Some (js ''<p>'' @ js ''2024'' @ 0x5E74 # js ''5'' @ 0x6708 # js ''7'' @ 0x65E5 # js ''</p>'')) (\<lambda>h. Some (js ''News'')) = js ''2024-05-07''"
    using mp[OF conjunct1[OF fetchArticleDetails_date_fallbacks[of "js ''<p>'' @ js ''2024'' @ 0x5E74 # js ''5'' @ 0x6708 # js ''7'' @ 0x65E5 # js ''</p>''"
          "\<lambda>h. Some (js ''News'')" "js ''News''" "js ''<p>''" "js ''2024''" "js ''5''" "js ''7''"
          "js ''</p>''", OF ne(1) refl]]
        conjI[OF refl conjI[OF dg(1) conjI[OF dg(2) conjI[OF dg(3) conjI[OF dg(4)
          conjI[OF dg(5) conjI[OF dg(6) l1[folded all_less_upt]]]]]]]]]
    unfolding e .
  have 2: "fetchArticleDetails_date (Some (js ''<p>no date</p>'')) (\<lambda>h. Some (js ''Kamaya '' @ js ''2024'' @ 0x5E74 # js ''12'' @ 0x6708 # 0x53F7 # js '' issue'')) = js ''2024-12-01''"
    using mp[OF conjunct1[OF conjunct2[OF fetchArticleDetails_date_fallbacks[of "js ''<p>no date</p>''"
          "\<lambda>h. Some (js ''Kamaya '' @ js ''2024'' @ 0x5E74 # js ''12'' @ 0x6708 # 0x53F7 # js '' issue'')" "js ''Kamaya '' @ js ''2024'' @ 0x5E74 # js ''12'' @ 0x6708 # 0x53F7 # js '' issue''" "js ''Kamaya ''" "js ''2024''" "js ''12''" _
          "js '' issue''", OF ne(2) refl]]]
        conjI[OF l2[folded all_le_upt] conjI[OF refl conjI[OF dg(1) conjI[OF dg(2)
          conjI[OF dg(7) conjI[OF dg(8) l3[folded all_less_upt]]]]]]]]
    unfolding e .
  have 3: "fetchArticleDetails_date (Some (js ''<p>no date</p>'')) (\<lambda>h. Some (js ''News'')) = []"
    by (rule mp[OF conjunct1[OF conjunct2[OF conjunct2[OF fetchArticleDetails_date_fallbacks[of
          "js ''<p>no date</p>''" "\<lambda>h. Some (js ''News'')" "js ''News''", OF ne(2) refl]]]]
        conjI[OF l2[folded all_le_upt] l4[folded all_le_upt]]])
  show ?thesis by (intro conjI 1 l2 2 l4 3)
qed

section \<open>The analysis run of the page\<close>

subsection \<open>trim\<close>

lemma dropWhile_id: "xs = [] \<or> \<not> P (hd xs) \<Longrightarrow> dropWhile P xs = xs"
  by (cases xs) auto

lemma dropWhile_start: "dropWhile P xs = [] \<or> \<not> P (hd (dropWhile P xs))"
  using hd_dropWhile by blast

lemma trim_idem: "trim (trim s) = trim s"
proof -
  define a where "a = dropWhile is_space s"
  define b where "b = dropWhile is_space (rev a)"
  have t: "trim s = rev b" by (simp add: trim_def a_def b_def)
  have b0: "b = [] \<or> \<not> is_space (hd b)" unfolding b_def by (rule dropWhile_start)
  have a0: "a = [] \<or> \<not> is_space (hd a)" unfolding a_def by (rule dropWhile_start)
  have "rev b = [] \<or> \<not> is_space (hd (rev b))"
  proof (cases "b = []")
    case True
    then show ?thesis by simp
  next
    case False
    obtain p where p: "rev a = p @ b"
      unfolding b_def by (metis takeWhile_dropWhile_id)
    then have "a = rev b @ rev p" by (metis rev_append rev_rev_ident)
    with False have "hd (rev b) = hd a" "a \<noteq> []" by auto
    with a0 show ?thesis by simp
  qed
  then have 1: "dropWhile is_space (rev b) = rev b" by (rule dropWhile_id)
  have 2: "dropWhile is_space b = b" using b0 by (rule dropWhile_id)
  show ?thesis unfolding t by (simp add: trim_def 1 2)
qed

subsection \<open>The map\<close>

lemma map_of_map_set: "map_of (map_set k v m) = (map_of m)(k \<mapsto> v)"
  by (induction m) (auto simp: fun_eq_iff)

lemma keys_map_set: "fst ` set (map_set k v m) = insert k (fst ` set m)"
  by (induction m) auto

lemma distinct_map_set: "distinct (map fst m) \<Longrightarrow> distinct (map fst (map_set k v m))"
  by (induction m) (auto simp: keys_map_set[simplified])

lemma count_items_append: "count_items m (xs @ ys) = count_items (count_items m xs) ys"
  by (induction xs arbitrary: m) (simp_all add: Let_def)

lemma distinct_count_items:
  "distinct (map fst m) \<Longrightarrow> distinct (map fst (count_items m items))"
  by (induction items arbitrary: m) (simp_all add: Let_def distinct_map_set)

lemma map_of_count_items:
  "map_of (count_items m items) k =
     (if k \<noteq> [] \<and> k \<in> trim ` set items
      then Some ((case map_of m k of None \<Rightarrow> 0 | Some n \<Rightarrow> n) +
                 length (filter (\<lambda>i. trim i = k) items))
      else map_of m k)"
proof (induction items arbitrary: m)
  case Nil
  then show ?case by simp
next
  case (Cons item items)
  show ?case
  proof (cases "trim item = []")
    case True
    then show ?thesis using Cons.IH[of m] by (auto simp: Let_def)
  next
    case False
    then show ?thesis
      using Cons.IH[of "map_set (trim item) ((case map_of m (trim item) of None \<Rightarrow> 0 | Some n \<Rightarrow> n) + 1) m"]
      by (auto simp: Let_def map_of_map_set filter_empty_conv image_iff split: option.splits)
  qed
qed

lemma keys_count_items:
  "fst ` set (count_items m items) = fst ` set m \<union> (trim ` set items - {[]})"
  by (induction items arbitrary: m) (auto simp: Let_def keys_map_set)

subsection \<open>sortMap\<close>

lemma set_sortMap: "set (sortMap m) = (\<lambda>(n, c). \<lparr>name = n, count = c\<rparr>) ` set m"
  by (simp add: sortMap_def)

lemma names_sortMap: "map name (sortMap m) = map fst (sort_key (\<lambda>e. - int (snd e)) m)"
  by (simp add: sortMap_def case_prod_unfold comp_def)

lemma distinct_names_sortMap:
  assumes "distinct (map fst m)"
  shows "distinct (map name (sortMap m))"
proof -
  from assms have "distinct m" "inj_on fst (set m)" by (simp_all add: distinct_map)
  then show ?thesis unfolding names_sortMap by (simp add: distinct_map)
qed

lemma sorted_sortMap: "sorted_wrt (\<lambda>a b. count a \<ge> count b) (sortMap m)"
proof -
  have "sorted (map (\<lambda>e. - int (snd e)) (sort_key (\<lambda>e. - int (snd e)) m))"
    by (rule sorted_sort_key)
  then have "sorted_wrt (\<lambda>x y. snd y \<le> snd x) (sort_key (\<lambda>e. - int (snd e)) m)"
    by (simp add: sorted_map)
  then show ?thesis
    by (simp add: sortMap_def sorted_wrt_map case_prod_unfold)
qed

lemma sortMap_entry:
  assumes "distinct (map fst m)"
  shows "x \<in> set (sortMap m) \<longleftrightarrow> map_of m (name x) = Some (count x)"
proof
  assume "x \<in> set (sortMap m)"
  then have "(name x, count x) \<in> set m" by (auto simp: set_sortMap)
  with assms show "map_of m (name x) = Some (count x)" by simp
next
  assume "map_of m (name x) = Some (count x)"
  then have "(name x, count x) \<in> set m" by (rule map_of_SomeD)
  then have "(\<lambda>(n, c). \<lparr>name = n, count = c\<rparr>) (name x, count x) \<in> set (sortMap m)"
    unfolding set_sortMap by (rule imageI)
  then show "x \<in> set (sortMap m)" by (cases x) simp
qed

text \<open>The ranking of the counts of a list of items, from the empty map.\<close>

lemma ranking_of_items:
  "sorted_wrt (\<lambda>a b. count a \<ge> count b) (sortMap (count_items [] items)) \<and>
   distinct (map name (sortMap (count_items [] items))) \<and>
   set (map name (sortMap (count_items [] items))) = trim ` set items - {[]} \<and>
   (\<forall>x\<in>set (sortMap (count_items [] items)).
      name x \<noteq> [] \<and> trim (name x) = name x \<and>
      count x = length (filter (\<lambda>i. trim i = name x) items) \<and> 1 \<le> count x)"
proof (intro conjI ballI)
  let ?m = "count_items [] items"
  have d: "distinct (map fst ?m)" by (rule distinct_count_items) simp
  show "sorted_wrt (\<lambda>a b. count a \<ge> count b) (sortMap ?m)" by (rule sorted_sortMap)
  show "distinct (map name (sortMap ?m))" using d by (rule distinct_names_sortMap)
  show k: "set (map name (sortMap ?m)) = trim ` set items - {[]}"
    using keys_count_items[of "[]" items] by (simp add: names_sortMap)
  fix x assume x: "x \<in> set (sortMap ?m)"
  then have "name x \<in> set (map name (sortMap ?m))" by simp
  then have n: "name x \<in> trim ` set items" "name x \<noteq> []" unfolding k by auto
  show "name x \<noteq> []" by (rule n(2))
  from n(1) show "trim (name x) = name x" by (auto simp: trim_idem)
  from x have "map_of ?m (name x) = Some (count x)" using d by (simp add: sortMap_entry)
  with n show c: "count x = length (filter (\<lambda>i. trim i = name x) items)"
    by (simp add: map_of_count_items)
  from n(1) obtain i where "i \<in> set items" "trim i = name x" by auto
  then have "filter (\<lambda>i. trim i = name x) items \<noteq> []" by (auto simp: filter_empty_conv)
  then show "1 \<le> count x" unfolding c by (simp add: Suc_le_eq)
qed


subsection \<open>The tallies\<close>

lemma report_errorCount [simp]: "report (t\<lparr>errorCount := n\<rparr>) = report t"
  by (simp add: report_def)

lemma maps_tally:
  "ingredientsMap (tally t d) = count_items (ingredientsMap t) (or_empty (data_ingredients d))"
  "dishesMap (tally t d) = count_items (dishesMap t) (or_empty (data_dishes d))"
  "cookingMethodsMap (tally t d) =
     count_items (cookingMethodsMap t) (or_empty (data_cookingMethods d))"
  "seasonsMap (tally t d) = count_items (seasonsMap t) (or_empty (data_seasons d))"
  by (simp_all add: tally_def)

lemma maps_foldl_tally:
  "ingredientsMap (foldl tally t ds) =
     count_items (ingredientsMap t) (concat (map (\<lambda>d. or_empty (data_ingredients d)) ds))"
  "dishesMap (foldl tally t ds) =
     count_items (dishesMap t) (concat (map (\<lambda>d. or_empty (data_dishes d)) ds))"
  "cookingMethodsMap (foldl tally t ds) =
     count_items (cookingMethodsMap t) (concat (map (\<lambda>d. or_empty (data_cookingMethods d)) ds))"
  "seasonsMap (foldl tally t ds) =
     count_items (seasonsMap t) (concat (map (\<lambda>d. or_empty (data_seasons d)) ds))"
  by (induction ds arbitrary: t; simp add: maps_tally count_items_append)+

lemma report_foldl_tally: "report (foldl tally no_tallies ds) = aggregation ds"
  by (simp add: report_def aggregation_def maps_foldl_tally) (simp add: no_tallies_def)

lemma maps_absorb:
  "ingredientsMap (absorb t it) =
     (case analyzed it of None \<Rightarrow> ingredientsMap t
      | Some d \<Rightarrow> count_items (ingredientsMap t) (or_empty (data_ingredients d)))"
  "dishesMap (absorb t it) =
     (case analyzed it of None \<Rightarrow> dishesMap t
      | Some d \<Rightarrow> count_items (dishesMap t) (or_empty (data_dishes d)))"
  "cookingMethodsMap (absorb t it) =
     (case analyzed it of None \<Rightarrow> cookingMethodsMap t
      | Some d \<Rightarrow> count_items (cookingMethodsMap t) (or_empty (data_cookingMethods d)))"
  "seasonsMap (absorb t it) =
     (case analyzed it of None \<Rightarrow> seasonsMap t
      | Some d \<Rightarrow> count_items (seasonsMap t) (or_empty (data_seasons d)))"
  by (simp_all add: absorb_def maps_tally split: option.splits)

lemma map_filter_append: "List.map_filter f (xs @ ys) = List.map_filter f xs @ List.map_filter f ys"
  by (simp add: List.map_filter_def)

lemma maps_foldl_absorb:
  "ingredientsMap (foldl absorb t its) =
     count_items (ingredientsMap t)
       (concat (map (\<lambda>d. or_empty (data_ingredients d)) (List.map_filter analyzed its)))"
  "dishesMap (foldl absorb t its) =
     count_items (dishesMap t)
       (concat (map (\<lambda>d. or_empty (data_dishes d)) (List.map_filter analyzed its)))"
  "cookingMethodsMap (foldl absorb t its) =
     count_items (cookingMethodsMap t)
       (concat (map (\<lambda>d. or_empty (data_cookingMethods d)) (List.map_filter analyzed its)))"
  "seasonsMap (foldl absorb t its) =
     count_items (seasonsMap t)
       (concat (map (\<lambda>d. or_empty (data_seasons d)) (List.map_filter analyzed its)))"
proof (induction its arbitrary: t)
  case Nil
  {
    case 1 show ?case by simp
  next
    case 2 show ?case by simp
  next
    case 3 show ?case by simp
  next
    case 4 show ?case by simp
  }
next
  case (Cons it its)
  {
    case 1 show ?case
      by (cases "analyzed it") (simp_all add: Cons.IH(1) maps_absorb(1) count_items_append)
  next
    case 2 show ?case
      by (cases "analyzed it") (simp_all add: Cons.IH(2) maps_absorb(2) count_items_append)
  next
    case 3 show ?case
      by (cases "analyzed it") (simp_all add: Cons.IH(3) maps_absorb(3) count_items_append)
  next
    case 4 show ?case
      by (cases "analyzed it") (simp_all add: Cons.IH(4) maps_absorb(4) count_items_append)
  }
qed

lemma report_foldl_absorb:
  "report (foldl absorb no_tallies its) = aggregation (List.map_filter analyzed its)"
  by (simp add: report_def aggregation_def maps_foldl_absorb) (simp add: no_tallies_def)

subsection \<open>Answers read as JSON\<close>

lemma strings_of_map_JStr: "strings_of (map JStr xs) = Some xs"
  by (induction xs) simp_all

lemma count_json_items_strings:
  "strings_of items = Some xs \<Longrightarrow> count_json_items m items = (count_items m xs, True)"
proof (induction m items arbitrary: xs rule: count_json_items.induct)
  case (1 m)
  then show ?case by simp
next
  case (2 m item items)
  from "2.prems" obtain ys where ys: "strings_of items = Some ys" and xs: "xs = item # ys"
    by auto
  show ?case
    unfolding xs using "2.IH"[OF refl ys] by (simp add: Let_def)
qed simp_all

lemma count_json_items_broken:
  "strings_of items = None \<Longrightarrow> snd (count_json_items m items) = False"
  by (induction m items rule: count_json_items.induct) (simp_all add: Let_def)

lemma count_member_read:
  assumes "read_member v = Some xs"
  shows "count_member m v = (count_items m (or_empty xs), True)"
proof (cases v)
  case None
  with assms show ?thesis by (auto simp: read_member_def count_member_def iterated_def or_empty_def)
next
  case (Some x)
  show ?thesis
  proof (cases "truthy x")
    case False
    with Some assms show ?thesis
      by (auto simp: read_member_def count_member_def iterated_def or_empty_def)
  next
    case True
    show ?thesis
    proof (cases x)
      case (JArr items)
      with Some True assms obtain ys where "strings_of items = Some ys" "xs = Some ys"
        by (auto simp: read_member_def)
      with Some True JArr show ?thesis
        by (simp add: count_member_def iterated_def or_empty_def count_json_items_strings)
    next
      case (JStr s)
      with Some True assms have "xs = Some (code_points s)" by (simp add: read_member_def)
      with Some True JStr show ?thesis
        by (simp add: count_member_def iterated_def or_empty_def
            count_json_items_strings[OF strings_of_map_JStr])
    qed (use Some True assms in \<open>simp_all add: read_member_def\<close>)
  qed
qed

lemma count_member_broken:
  assumes "read_member v = None"
  shows "snd (count_member m v) = False"
proof (cases v)
  case None
  with assms show ?thesis by (simp add: read_member_def)
next
  case (Some x)
  with assms have t: "truthy x" by (auto simp: read_member_def split: if_splits)
  show ?thesis
  proof (cases x)
    case (JArr items)
    with Some t assms have "strings_of items = None" by (simp add: read_member_def)
    with Some t JArr show ?thesis
      by (simp add: count_member_def iterated_def count_json_items_broken)
  next
    case (JStr s)
    with Some t assms show ?thesis by (simp add: read_member_def)
  qed (use Some t in \<open>simp_all add: count_member_def iterated_def\<close>)
qed

lemma tally_json_read:
  assumes "read_data dd = Some d"
  shows "tally_json t dd = (tally t d, True)"
proof -
  from assms have
    "read_member (member dd (js ''ingredients'')) = Some (data_ingredients d)"
    "read_member (member dd (js ''dishes'')) = Some (data_dishes d)"
    "read_member (member dd (js ''cookingMethods'')) = Some (data_cookingMethods d)"
    "read_member (member dd (js ''seasons'')) = Some (data_seasons d)"
    by (auto simp: read_data_def split: option.splits)
  then show ?thesis
    by (simp add: tally_json_def tally_def count_member_read)
qed

lemma tally_json_broken:
  assumes "read_data dd = None"
  shows "snd (tally_json t dd) = False"
proof -
  from assms consider
      "read_member (member dd (js ''ingredients'')) = None"
    | "read_member (member dd (js ''dishes'')) = None"
    | "read_member (member dd (js ''cookingMethods'')) = None"
    | "read_member (member dd (js ''seasons'')) = None"
    by (auto simp: read_data_def split: option.splits)
  then show ?thesis
  proof cases
    case 1
    from count_member_broken[OF 1, of "ingredientsMap t"] show ?thesis
      by (auto simp: tally_json_def split: prod.splits)
  next
    case 2
    from count_member_broken[OF 2, of "dishesMap t"] show ?thesis
      by (auto simp: tally_json_def split: prod.splits)
  next
    case 3
    from count_member_broken[OF 3, of "cookingMethodsMap t"] show ?thesis
      by (auto simp: tally_json_def split: prod.splits)
  next
    case 4
    from count_member_broken[OF 4, of "seasonsMap t"] show ?thesis
      by (auto simp: tally_json_def split: prod.splits)
  qed
qed

lemma tally_json_successCount:
  "successCount (fst (tally_json t dd)) =
     (if snd (tally_json t dd) then successCount t + 1 else successCount t)"
  by (auto simp: tally_json_def split: prod.splits)

subsection \<open>The loop\<close>

lemma analyze_one_reply:
  "analyze_one t (Replied v) =
     (case counted_data v of
        None \<Rightarrow> Inr (t\<lparr>errorCount := errorCount t + 1\<rparr>)
      | Some dd \<Rightarrow>
          (case tally_json t dd of
             (t', True) \<Rightarrow> Inr t'
           | (t', False) \<Rightarrow> Inr (t'\<lparr>errorCount := errorCount t' + 1\<rparr>)))"
  by (cases v) (auto simp: analyze_one_def counted_data_def split: option.splits)

text \<open>
  The handler counts a document in \<open>successCount\<close> exactly when \<open>analyzed\<close> gives its data.
\<close>

lemma analyze_one_successCount:
  assumes "\<not> aborted_at_check it" "analyze_one t (outcome it) = Inr t'"
  shows "successCount t' = (if analyzed it = None then successCount t else successCount t + 1)"
proof (cases "outcome it")
  case (Rejected e)
  with assms show ?thesis by (auto simp: analyze_one_def analyzed_def split: if_splits)
next
  case (Replied v)
  show ?thesis
  proof (cases "counted_data v")
    case None
    with Replied assms show ?thesis by (auto simp: analyze_one_reply analyzed_def)
  next
    case (Some dd)
    show ?thesis
    proof (cases "read_data dd")
      case None
      have "snd (tally_json t dd) = False" using None by (rule tally_json_broken)
      moreover have "successCount (fst (tally_json t dd)) = successCount t"
        using calculation by (simp add: tally_json_successCount)
      ultimately show ?thesis
        using Replied Some None assms by (auto simp: analyze_one_reply analyzed_def split: prod.splits)
    next
      case (Some d)
      have "tally_json t dd = (tally t d, True)" using Some by (rule tally_json_read)
      with Replied \<open>counted_data v = Some dd\<close> Some assms show ?thesis
        by (auto simp: analyze_one_reply analyzed_def tally_def)
    qed
  qed
qed

lemma analyze_one_absorb:
  assumes "\<not> aborted_at_check it" "outcome it \<noteq> Rejected AbortError"
    "outcome it \<noteq> Rejected Canceled" "\<not> breaks_off it"
  shows "analyze_one t (outcome it) = Inr (absorb t it)"
proof (cases "outcome it")
  case (Rejected e)
  with assms have "e = OtherError" by (cases e) auto
  with Rejected assms(1) show ?thesis
    by (simp add: analyze_one_def absorb_def analyzed_def)
next
  case (Replied v)
  show ?thesis
  proof (cases "counted_data v")
    case None
    with Replied assms(1) show ?thesis by (simp add: analyze_one_reply absorb_def analyzed_def)
  next
    case (Some dd)
    with Replied assms(1,4) obtain d where d: "read_data dd = Some d"
      by (auto simp: breaks_off_def)
    have "tally_json t dd = (tally t d, True)" using d by (rule tally_json_read)
    with Replied Some d assms(1) show ?thesis
      by (simp add: analyze_one_reply absorb_def analyzed_def)
  qed
qed


lemma loop_no_cancel:
  "\<forall>it\<in>set its. \<not> observes_cancel it \<and> \<not> breaks_off it \<Longrightarrow>
   analyze_loop t its = (Finished, foldl absorb t its)"
proof (induction its arbitrary: t)
  case Nil
  then show ?case by simp
next
  case (Cons it its)
  then have n: "\<not> aborted_at_check it" "outcome it \<noteq> Rejected AbortError"
    "outcome it \<noteq> Rejected Canceled" "\<not> aborted_in_wait it" "\<not> breaks_off it"
    by (simp_all add: observes_cancel_def)
  have "analyze_one t (outcome it) = Inr (absorb t it)"
    using n(1-3,5) by (rule analyze_one_absorb)
  moreover have "analyze_loop (absorb t it) its = (Finished, foldl absorb (absorb t it) its)"
    using Cons.prems by (intro Cons.IH) simp
  ultimately show ?case using n by simp
qed




lemma map2_index: "map2 f [0..<length xs] xs = map (\<lambda>i. f i (xs ! i)) [0..<length xs]"
  by (rule nth_equalityI) simp_all


lemma handleAnalyze_completed:
  assumes "key \<noteq> []" "pdfDataList \<noteq> []"
    and "\<forall>i<length pdfDataList.
           \<not> observes_cancel (world i (pdfDataList ! i)) \<and> \<not> breaks_off (world i (pdfDataList ! i))"
  shows "handleAnalyze key pdfDataList world st =
         st\<lparr>results :=
              Some (aggregation (List.map_filter analyzed
                     (map (\<lambda>i. world i (pdfDataList ! i)) [0..<length pdfDataList]))),
            step := Complete\<rparr>"
proof -
  let ?its = "map (\<lambda>i. world i (pdfDataList ! i)) [0..<length pdfDataList]"
  have "\<forall>it\<in>set ?its. \<not> observes_cancel it \<and> \<not> breaks_off it" using assms(3) by auto
  then have "analyze_loop no_tallies ?its = (Finished, foldl absorb no_tallies ?its)"
    by (rule loop_no_cancel)
  then show ?thesis
    using assms(1,2) by (simp add: handleAnalyze_def map2_index report_foldl_absorb)
qed




text \<open>
  Claim C4. For every list of analysed documents and each of the four categories, the
  ranking that the loop and \<open>sortMap\<close> produce is sorted by count, largest first; its names
  are distinct and are exactly the non-empty trimmed items of the category; every name is
  non-empty and trimmed, and its count is the number of items that trim to it, at least 1.
  Nothing is said about the order of names with equal counts.
\<close>

theorem rankings_trimmed_sorted:
  assumes "r = report (foldl tally no_tallies ds)"
    and "(ranking, items) \<in> set
           [(ingredients r, concat (map (\<lambda>d. or_empty (data_ingredients d)) ds)),
            (dishes r, concat (map (\<lambda>d. or_empty (data_dishes d)) ds)),
            (cookingMethods r, concat (map (\<lambda>d. or_empty (data_cookingMethods d)) ds)),
            (seasons r, concat (map (\<lambda>d. or_empty (data_seasons d)) ds))]"
  shows "sorted_wrt (\<lambda>a b. count a \<ge> count b) ranking \<and>
         distinct (map name ranking) \<and>
         set (map name ranking) = trim ` set items - {[]} \<and>
         (\<forall>x\<in>set ranking.
            name x \<noteq> [] \<and> trim (name x) = name x \<and>
            count x = length (filter (\<lambda>i. trim i = name x) items) \<and> 1 \<le> count x)"
proof -
  have "r = aggregation ds" using assms(1) by (simp only: report_foldl_tally)
  with assms(2) have r: "ranking = sortMap (count_items [] items)"
    by (auto simp: aggregation_def)
  show ?thesis unfolding r by (rule ranking_of_items)
qed

theorem rankings_trimmed_sorted_witness:
  "sample_results =
     report (foldl tally no_tallies
       [\<lparr>data_ingredients = Some [js '' rice '', js ''miso'', js ''  ''], data_dishes = None,
          data_cookingMethods = None, data_seasons = None\<rparr>,
        \<lparr>data_ingredients = Some [js ''rice''], data_dishes = Some [], data_cookingMethods = None,
          data_seasons = None\<rparr>]) \<and>
   sorted_wrt (\<lambda>a b. count a \<ge> count b) (ingredients sample_results) \<and>
   distinct (map name (ingredients sample_results)) \<and>
   set (map name (ingredients sample_results)) =
     trim ` set [js '' rice '', js ''miso'', js ''  '', js ''rice''] - {[]} \<and>
   list_all (\<lambda>x. name x \<noteq> [] \<and> trim (name x) = name x \<and>
      count x = length (filter (\<lambda>i. trim i = name x)
                          [js '' rice '', js ''miso'', js ''  '', js ''rice'']) \<and>
      1 \<le> count x) (ingredients sample_results)"
proof -
  let ?ds = "[\<lparr>data_ingredients = Some [js '' rice '', js ''miso'', js ''  ''], data_dishes = None,
          data_cookingMethods = None, data_seasons = None\<rparr>,
        \<lparr>data_ingredients = Some [js ''rice''], data_dishes = Some [], data_cookingMethods = None,
          data_seasons = None\<rparr>]"
  have a: "sample_results = report (foldl tally no_tallies ?ds)" by code_simp
  have i: "concat (map (\<lambda>d. or_empty (data_ingredients d)) ?ds) =
      [js '' rice '', js ''miso'', js ''  '', js ''rice'']"
    by (simp add: or_empty_def)
  have b: "(ingredients sample_results, [js '' rice '', js ''miso'', js ''  '', js ''rice'']) \<in> set
           [(ingredients sample_results, concat (map (\<lambda>d. or_empty (data_ingredients d)) ?ds)),
            (dishes sample_results, concat (map (\<lambda>d. or_empty (data_dishes d)) ?ds)),
            (cookingMethods sample_results, concat (map (\<lambda>d. or_empty (data_cookingMethods d)) ?ds)),
            (seasons sample_results, concat (map (\<lambda>d. or_empty (data_seasons d)) ?ds))]"
    unfolding i by simp
  show ?thesis
    unfolding list_all_iff
    by (rule conjI[OF a rankings_trimmed_sorted[OF a b]])
qed

section \<open>The report as a JSON document\<close>

lemma ranking_json_inj: "ranking_json a = ranking_json b \<Longrightarrow> a = b"
proof -
  have "inj (\<lambda>i :: RankingItem. JObj [(js ''name'', JStr (name i)), (js ''count'', JNum (int (count i)))])"
    by (rule injI) simp
  moreover assume "ranking_json a = ranking_json b"
  ultimately show "a = b" by (simp add: ranking_json_def inj_map_eq_map)
qed

lemma truthy_ranking_json: "truthy (ranking_json xs)"
  by (simp add: ranking_json_def)

lemma member_report_document:
  "member (report_document now r) (js ''ingredients'') = Some (ranking_json (ingredients r))"
  "member (report_document now r) (js ''dishes'') = Some (ranking_json (dishes r))"
  "member (report_document now r) (js ''cookingMethods'') = Some (ranking_json (cookingMethods r))"
  "member (report_document now r) (js ''seasons'') = Some (ranking_json (seasons r))"
  by (simp_all add: report_document_def js_def)

text \<open>
  Claim C8. Let \<open>JSON.parse\<close> give back the report document from the text that
  \<open>JSON.stringify\<close> makes of it. Then for every results value, loading the text that
  \<open>downloadReportAsJson\<close> offers sets the results to the four arrays of the original: the
  loaded values are the JSON values of the four rankings, and a ranking is determined by its
  JSON value.
\<close>

theorem report_json_roundtrip:
  assumes "parse (stringify (report_document now r)) = Some (report_document now r)"
  shows "loadReportFromJson parse (map_option snd (downloadReportAsJson stringify now (Some r))) =
           Loaded (ranking_json (ingredients r)) (ranking_json (dishes r))
             (ranking_json (cookingMethods r)) (ranking_json (seasons r))
       \<and> (ranking_json xs = ranking_json ys \<longrightarrow> xs = ys)"
proof
  obtain ms where ms: "report_document now r = JObj ms" by (simp add: report_document_def)
  show "loadReportFromJson parse (map_option snd (downloadReportAsJson stringify now (Some r))) =
           Loaded (ranking_json (ingredients r)) (ranking_json (dishes r))
             (ranking_json (cookingMethods r)) (ranking_json (seasons r))"
    using assms member_report_document[of now r]
    by (simp add: downloadReportAsJson_def loadReportFromJson_def truthy_ranking_json ms)
  show "ranking_json xs = ranking_json ys \<longrightarrow> xs = ys" using ranking_json_inj by blast
qed

theorem report_json_roundtrip_witness:
  "sample_report_parse
     (sample_report_stringify (report_document (js ''2024-05-07T09:30:00.000Z'') sample_results)) =
     Some (report_document (js ''2024-05-07T09:30:00.000Z'') sample_results) \<and>
   downloadReportAsJson sample_report_stringify (js ''2024-05-07T09:30:00.000Z'')
       (Some sample_results) =
     Some (js ''kamaya-report-2024-05-07.json'', sample_report_text) \<and>
   loadReportFromJson sample_report_parse (Some sample_report_text) =
     Loaded (ranking_json (ingredients sample_results)) (JArr []) (JArr []) (JArr [])"
proof -
  have a: "sample_report_parse
     (sample_report_stringify (report_document (js ''2024-05-07T09:30:00.000Z'') sample_results)) =
     Some (report_document (js ''2024-05-07T09:30:00.000Z'') sample_results)"
    by (simp add: sample_report_parse_def sample_report_stringify_def)
  have d: "downloadReportAsJson sample_report_stringify (js ''2024-05-07T09:30:00.000Z'')
       (Some sample_results) =
     Some (js ''kamaya-report-2024-05-07.json'', sample_report_text)"
    by (simp add: downloadReportAsJson_def sample_report_stringify_def) (simp add: js_def)
  have e: "ranking_json (dishes sample_results) = JArr []"
    "ranking_json (cookingMethods sample_results) = JArr []"
    "ranking_json (seasons sample_results) = JArr []"
    by (simp_all add: ranking_json_def sample_results_def)
  have "loadReportFromJson sample_report_parse (Some sample_report_text) =
     Loaded (ranking_json (ingredients sample_results)) (JArr []) (JArr []) (JArr [])"
    using conjunct1[OF report_json_roundtrip[of sample_report_parse sample_report_stringify
          "js ''2024-05-07T09:30:00.000Z''" sample_results, OF a]]
    unfolding d e by simp
  with a d show ?thesis by (intro conjI)
qed

end
